theory Spec2Isabelle
  imports Main
begin

section \<open>The RESP codec of \<^verbatim>\<open>parser.go\<close>\<close>

text \<open>
  A shallow embedding of \<^verbatim>\<open>src/parser.go\<close>: the five response types, their
  \<^verbatim>\<open>Encode\<close> and \<^verbatim>\<open>Length\<close> methods, and the decoder \<^verbatim>\<open>ReadProtocol\<close>.

  Conventions of the embedding.
  \<^item> A Go \<^verbatim>\<open>[]byte\<close> is a \<open>char list\<close> (a \<open>char\<close> is one byte).
  \<^item> A Go \<^verbatim>\<open>int\<close> is an \<open>int\<close>; a length (\<^verbatim>\<open>len(x)\<close>) is a \<open>nat\<close>. The 64-bit
    range of \<^verbatim>\<open>int\<close> and the limits of allocation are not modelled.
  \<^item> A panic is a value \<open>Inl p\<close> of the result; a normal return is \<open>Inr x\<close>.
  \<^item> Go's result pair \<^verbatim>\<open>(Resp, error)\<close> is a pair of options: \<open>None\<close> is \<^verbatim>\<open>nil\<close>.
  \<^item> A \<^verbatim>\<open>*bufio.Reader\<close> is the list of bytes it can still deliver; once the
    list is exhausted every read reports \<^verbatim>\<open>io.EOF\<close>. Each reading function
    returns the reader that is left.
  \<^item> The children of an array are \<^verbatim>\<open>*BulkResp\<close> pointers in the source; they are
    modelled as the structures pointed to (values are never mutated, and a nil
    child is not modelled).
\<close>

subsection \<open>Constants\<close>

type_synonym bytes = "char list"

definition SimpleType :: string where "SimpleType = ''simple''"
definition ErrorType :: string where "ErrorType = ''error''"
definition IntType :: string where "IntType = ''int''"
definition BulkType :: string where "BulkType = ''bulk''"
definition ArrayType :: string where "ArrayType = ''array''"

definition Space :: char where "Space = CHR '' ''"
definition SimpSep :: char where "SimpSep = CHR ''+''"
definition ErrSep :: char where "ErrSep = CHR ''-''"
definition IntSep :: char where "IntSep = CHR '':''"
definition BulkSep :: char where "BulkSep = CHR ''$''"
definition ArrSep :: char where "ArrSep = CHR ''*''"

definition CR :: char where "CR = CHR 0x0D"
definition LF :: char where "LF = CHR 0x0A"
definition CRLF :: bytes where "CRLF = [CR, LF]"

subsection \<open>Errors and panics\<close>

datatype error =
    EOF
  | ErrUnexpectedEOF
  | ErrParseLen
  | ErrorString string

datatype panic =
    PanicString string
  | IndexOutOfRange
  | SliceBoundsOutOfRange
  | MakeSliceLenOutOfRange

subsection \<open>The length codec (package \<^verbatim>\<open>util\<close>)\<close>

definition digit_char :: "nat \<Rightarrow> char" where
  "digit_char d = char_of (48 + d)"

definition is_digit :: "char \<Rightarrow> bool" where
  "is_digit c \<longleftrightarrow> 48 \<le> (of_char c :: nat) \<and> (of_char c :: nat) \<le> 57"

definition digit_val :: "char \<Rightarrow> int" where
  "digit_val c = int (of_char c) - 48"

text \<open>
  Modelled from the spec: \<^verbatim>\<open>util.Itob\<close> is not among the sources. Section 4.4 (a):
  a non-negative integer is rendered as its ASCII decimal byte sequence.
\<close>

fun Itob :: "nat \<Rightarrow> bytes" where
  "Itob n = (if n < 10 then [digit_char n] else Itob (n div 10) @ [digit_char (n mod 10)])"

declare Itob.simps [simp del]

text \<open>
  Modelled from the spec: \<^verbatim>\<open>util.ParseLen\<close> is not among the sources. Section 4.4 (b):
  an ASCII decimal byte sequence is read as an integer; a leading minus sign is
  accepted only for the literal \<^verbatim>\<open>-1\<close>; any other non-digit content (and the
  empty sequence, which is no decimal) is a parse error.
\<close>

definition ParseLen :: "bytes \<Rightarrow> error + int" where
  "ParseLen p =
     (if p = [] then Inl ErrParseLen
      else if p = ''-1'' then Inr (- 1)
      else if list_all is_digit p then Inr (foldl (\<lambda>n b. n * 10 + digit_val b) 0 p)
      else Inl ErrParseLen)"

subsection \<open>The response types\<close>

record BaseResp =
  Rtype :: string
  Args :: "bytes list"

record BulkResp = BaseResp +
  Empty :: bool

text \<open>
  \<^verbatim>\<open>ArrayResp\<close> embeds \<^verbatim>\<open>BaseResp\<close> and declares a field \<^verbatim>\<open>Args []*BulkResp\<close> of
  its own, which shadows the embedded \<^verbatim>\<open>Args\<close>. The embedded one keeps the name
  \<open>Args\<close>; the children are \<open>ArrayArgs\<close>.
\<close>

record ArrayResp = BaseResp +
  ArrayArgs :: "BulkResp list"

text \<open>The interface \<^verbatim>\<open>Resp\<close>: a value of one of the five implementing types.\<close>

datatype Resp =
    RSimple BaseResp
  | RError BaseResp
  | RInt BaseResp
  | RBulk BulkResp
  | RArray ArrayResp

subsection \<open>\<^verbatim>\<open>Length\<close>\<close>

definition BaseResp_Length :: "'a BaseResp_scheme \<Rightarrow> int" where
  "BaseResp_Length br = 0"

definition ArrayResp_Length :: "ArrayResp \<Rightarrow> int" where
  "ArrayResp_Length ar = int (length (ArrayArgs ar)) - 1"

text \<open>The method call \<^verbatim>\<open>r.Length()\<close> on the interface. Only \<^verbatim>\<open>ArrayResp\<close> overrides
  the method promoted from \<^verbatim>\<open>BaseResp\<close>.\<close>

fun Length :: "Resp \<Rightarrow> int" where
  "Length (RSimple sr) = BaseResp_Length sr"
| "Length (RError er) = BaseResp_Length er"
| "Length (RInt ir) = BaseResp_Length ir"
| "Length (RBulk br) = BaseResp_Length br"
| "Length (RArray ar) = ArrayResp_Length ar"

subsection \<open>\<^verbatim>\<open>Encode\<close>\<close>

text \<open>\<^verbatim>\<open>a[0]\<close> on a slice of byte slices: it panics on the empty slice.\<close>

definition index0 :: "bytes list \<Rightarrow> panic + bytes" where
  "index0 a = (case a of [] \<Rightarrow> Inl IndexOutOfRange | x # _ \<Rightarrow> Inr x)"

definition SimpleResp_Encode :: "BaseResp \<Rightarrow> panic + bytes" where
  "SimpleResp_Encode sr =
     (if Rtype sr \<noteq> SimpleType
      then Inl (PanicString (''SimpleResp Encode Type error: '' @ Rtype sr @ '', expected '' @ SimpleType))
      else case index0 (Args sr) of
             Inl p \<Rightarrow> Inl p
           | Inr a \<Rightarrow> Inr ([SimpSep] @ a @ CRLF))"

definition ErrorResp_Encode :: "BaseResp \<Rightarrow> panic + bytes" where
  "ErrorResp_Encode er =
     (if Rtype er \<noteq> ErrorType
      then Inl (PanicString (''ErrorResp Encode Type error: '' @ Rtype er @ '', expected '' @ ErrorType))
      else case index0 (Args er) of
             Inl p \<Rightarrow> Inl p
           | Inr a \<Rightarrow> Inr ([ErrSep] @ a @ CRLF))"

definition IntResp_Encode :: "BaseResp \<Rightarrow> panic + bytes" where
  "IntResp_Encode ir =
     (if Rtype ir \<noteq> IntType
      then Inl (PanicString (''IntResp Encode Type error: '' @ Rtype ir @ '', expected '' @ IntType))
      else case index0 (Args ir) of
             Inl p \<Rightarrow> Inl p
           | Inr a \<Rightarrow> Inr ([IntSep] @ a @ CRLF))"

definition BulkResp_Encode :: "BulkResp \<Rightarrow> panic + bytes" where
  "BulkResp_Encode br =
     (if Rtype br \<noteq> BulkType
      then Inl (PanicString (''BulkResp Encode Type error: '' @ Rtype br @ '', expected '' @ BulkType))
      else if Empty br then Inr (''$-1'' @ [CR, LF])
      else case index0 (Args br) of
             Inl p \<Rightarrow> Inl p
           | Inr a \<Rightarrow> Inr ([BulkSep] @ Itob (length a) @ CRLF @ a @ CRLF))"

text \<open>The loop \<^verbatim>\<open>for _, arg := range ar.Args { b.Write(arg.Encode()) }\<close> on the
  buffer \<open>b\<close>.\<close>

fun ArrayResp_Encode_loop :: "BulkResp list \<Rightarrow> bytes \<Rightarrow> panic + bytes" where
  "ArrayResp_Encode_loop [] b = Inr b"
| "ArrayResp_Encode_loop (arg # args) b =
     (case BulkResp_Encode arg of
        Inl p \<Rightarrow> Inl p
      | Inr e \<Rightarrow> ArrayResp_Encode_loop args (b @ e))"

definition ArrayResp_Encode :: "ArrayResp \<Rightarrow> panic + bytes" where
  "ArrayResp_Encode ar =
     (if Rtype ar \<noteq> ArrayType
      then Inl (PanicString (''ArrayResp Encode Type error: '' @ Rtype ar @ '', expected '' @ ArrayType))
      else ArrayResp_Encode_loop (ArrayArgs ar) ([ArrSep] @ Itob (length (ArrayArgs ar)) @ CRLF))"

text \<open>The method call \<^verbatim>\<open>r.Encode()\<close> on the interface.\<close>

fun Encode :: "Resp \<Rightarrow> panic + bytes" where
  "Encode (RSimple sr) = SimpleResp_Encode sr"
| "Encode (RError er) = ErrorResp_Encode er"
| "Encode (RInt ir) = IntResp_Encode ir"
| "Encode (RBulk br) = BulkResp_Encode br"
| "Encode (RArray ar) = ArrayResp_Encode ar"

subsection \<open>Reading from the stream\<close>

type_synonym Reader = bytes

text \<open>\<^verbatim>\<open>r.ReadBytes(delim)\<close>: the bytes up to and including the first \<open>delim\<close>; when
  the stream ends first, the bytes read so far and \<^verbatim>\<open>io.EOF\<close>.\<close>

definition ReadBytes :: "Reader \<Rightarrow> char \<Rightarrow> (bytes \<times> error option) \<times> Reader" where
  "ReadBytes r delim =
     (if delim \<in> set r
      then ((takeWhile (\<lambda>c. c \<noteq> delim) r @ [delim], None), tl (dropWhile (\<lambda>c. c \<noteq> delim) r))
      else ((r, Some EOF), []))"

text \<open>\<^verbatim>\<open>io.ReadFull(r, buf)\<close> with \<open>k = len(buf)\<close>, \<open>buf\<close> freshly made (all zero):
  the buffer afterwards, the number of bytes read and the error. No byte read is
  \<^verbatim>\<open>io.EOF\<close>, some but fewer than \<open>k\<close> is \<^verbatim>\<open>io.ErrUnexpectedEOF\<close>.\<close>

definition ReadFull :: "Reader \<Rightarrow> nat \<Rightarrow> (bytes \<times> nat \<times> error option) \<times> Reader" where
  "ReadFull r k =
     (if k \<le> length r then ((take k r, k, None), drop k r)
      else ((r @ replicate (k - length r) (CHR 0x00), length r,
             Some (if r = [] then EOF else ErrUnexpectedEOF)), []))"

text \<open>The slice expression \<^verbatim>\<open>b[lo:hi]\<close>; it panics unless \<open>0 \<le> lo \<le> hi \<le> len(b)\<close>
  (the slices taken here have no spare capacity in use).\<close>

definition subslice :: "bytes \<Rightarrow> int \<Rightarrow> int \<Rightarrow> panic + bytes" where
  "subslice b lo hi =
     (if 0 \<le> lo \<and> lo \<le> hi \<and> hi \<le> int (length b)
      then Inr (take (nat (hi - lo)) (drop (nat lo) b))
      else Inl SliceBoundsOutOfRange)"

text \<open>The conversion \<^verbatim>\<open>string(b)\<close> of a byte \<open>b\<close>: the UTF-8 encoding of the code point
  \<open>b\<close>, which is the byte itself below \<open>0x80\<close> and two bytes from there on.\<close>

definition string_of_byte :: "char \<Rightarrow> bytes" where
  "string_of_byte b =
     (if (of_char b :: nat) < 128 then [b]
      else [char_of (192 + (of_char b :: nat) div 64), char_of (128 + (of_char b :: nat) mod 64)])"

subsection \<open>\<^verbatim>\<open>ReadProtocol\<close>\<close>

type_synonym ret = "(Resp option \<times> error option) \<times> Reader"

text \<open>
  \<open>ReadProtocol_loop i n ar r\<close> is the loop
  \<^verbatim>\<open>for i := 0; i < n; i++ { ... }\<close> of the array case, entered with the counter
  \<open>i\<close> and the array \<open>ar\<close> built so far. The type assertion
  \<^verbatim>\<open>rsp.(*BulkResp)\<close> fails on every other type and on the nil interface.

  In the bulk case the source returns \<^verbatim>\<open>nil, err\<close> after a short read, where
  \<^verbatim>\<open>err\<close> is the (nil) error of \<^verbatim>\<open>util.ParseLen\<close>, not the error \<^verbatim>\<open>e\<close> of
  \<^verbatim>\<open>io.ReadFull\<close>.
\<close>

function ReadProtocol :: "Reader \<Rightarrow> panic + ret"
  and ReadProtocol_loop :: "int \<Rightarrow> int \<Rightarrow> ArrayResp \<Rightarrow> Reader \<Rightarrow> panic + ret"
where
  "ReadProtocol r =
     (case ReadBytes r LF of
        ((res, Some err), r1) \<Rightarrow> Inr ((None, Some err), r1)
      | ((res, None), r1) \<Rightarrow>
          (case res of
             [] \<Rightarrow> Inl IndexOutOfRange
           | c # _ \<Rightarrow>
               if c = SimpSep then
                 (case subslice res 1 (int (length res) - 2) of
                    Inl p \<Rightarrow> Inl p
                  | Inr a \<Rightarrow> Inr ((Some (RSimple \<lparr>Rtype = SimpleType, Args = [a]\<rparr>), None), r1))
               else if c = ErrSep then
                 (case subslice res 1 (int (length res) - 2) of
                    Inl p \<Rightarrow> Inl p
                  | Inr a \<Rightarrow> Inr ((Some (RError \<lparr>Rtype = ErrorType, Args = [a]\<rparr>), None), r1))
               else if c = IntSep then
                 (case subslice res 1 (int (length res) - 2) of
                    Inl p \<Rightarrow> Inl p
                  | Inr a \<Rightarrow> Inr ((Some (RInt \<lparr>Rtype = IntType, Args = [a]\<rparr>), None), r1))
               else if c = BulkSep then
                 (case subslice res 1 (int (length res) - 2) of
                    Inl p \<Rightarrow> Inl p
                  | Inr a \<Rightarrow>
                      (case ParseLen a of
                         Inl err \<Rightarrow> Inr ((None, Some err), r1)
                       | Inr l \<Rightarrow>
                           if l = - 1 then
                             Inr ((Some (RBulk \<lparr>Rtype = BulkType, Args = [], Empty = True\<rparr>), None), r1)
                           else if l + 2 < 0 then Inl MakeSliceLenOutOfRange
                           else
                             (case ReadFull r1 (nat (l + 2)) of
                                ((buf, n, e), r2) \<Rightarrow>
                                  if e \<noteq> None \<or> int n \<noteq> l + 2 then Inr ((None, None), r2)
                                  else
                                    (case subslice buf 0 (int (length buf) - 2) of
                                       Inl p \<Rightarrow> Inl p
                                     | Inr b \<Rightarrow>
                                         Inr ((Some (RBulk \<lparr>Rtype = BulkType, Args = [b], Empty = False\<rparr>),
                                               None), r2)))))
               else if c = ArrSep then
                 (case subslice res 1 (int (length res) - 2) of
                    Inl p \<Rightarrow> Inl p
                  | Inr a \<Rightarrow>
                      (case ParseLen a of
                         Inl err \<Rightarrow> Inr ((None, Some err), r1)
                       | Inr n \<Rightarrow>
                           ReadProtocol_loop 0 n \<lparr>Rtype = ArrayType, Args = [], ArrayArgs = []\<rparr> r1))
               else if c = CHR ''Q'' \<or> c = CHR ''q'' then
                 (if length res \<noteq> 6
                  then Inr ((None, Some (ErrorString ''raw command must be quit or ping'')), r1)
                  else Inr ((Some (RArray \<lparr>Rtype = ArrayType, Args = [],
                               ArrayArgs = [\<lparr>Rtype = BulkType, Args = [''QUIT''], Empty = False\<rparr>]\<rparr>),
                             None), r1))
               else if c = CHR ''p'' \<or> c = CHR ''P'' then
                 (if length res \<noteq> 6
                  then Inr ((None, Some (ErrorString ''raw command must be quit or ping'')), r1)
                  else Inr ((Some (RArray \<lparr>Rtype = ArrayType, Args = [],
                               ArrayArgs = [\<lparr>Rtype = BulkType, Args = [''PING''], Empty = False\<rparr>]\<rparr>),
                             None), r1))
               else
                 Inr ((None, Some (ErrorString
                         (''ReadResp error, unexpected: '' @ res @ string_of_byte c))), r1)))"
| "ReadProtocol_loop i n ar r =
     (if i < n then
        (case ReadProtocol r of
           Inl p \<Rightarrow> Inl p
         | Inr ((rsp, Some err), r1) \<Rightarrow> Inr ((None, Some err), r1)
         | Inr ((rsp, None), r1) \<Rightarrow>
             (case rsp of
                Some (RBulk br) \<Rightarrow>
                  ReadProtocol_loop (i + 1) n (ar\<lparr>ArrayArgs := ArrayArgs ar @ [br]\<rparr>) r1
              | _ \<Rightarrow> Inr ((None, Some (ErrorString ''In  ReadResp ArrSep, must read BulkResp'')), r1)))
      else Inr ((Some (RArray ar), None), r))"
  by pat_completeness auto

text \<open>Termination: a line that is read takes at least one byte off the stream, and
  the loop goes on only after a child has been read.\<close>

lemma length_tl_dropWhile:
  "d \<in> set r \<Longrightarrow> length (dropWhile (\<lambda>c. c \<noteq> d) r) - Suc 0 < length r"
proof -
  assume "d \<in> set r"
  then have "r \<noteq> []" by auto
  moreover have "length (dropWhile (\<lambda>c. c \<noteq> d) r) \<le> length r"
    by (rule length_dropWhile_le)
  ultimately show ?thesis by (cases r) auto
qed

lemma ReadBytes_shrinks:
  "ReadBytes r d = ((res, None), r1) \<Longrightarrow> length r1 < length r"
  by (auto simp: ReadBytes_def length_tl_dropWhile split: if_splits)

lemma ReadBytes_le:
  "ReadBytes r d = (x, r1) \<Longrightarrow> length r1 \<le> length r"
  by (auto simp: ReadBytes_def split: if_splits intro: less_imp_le[OF length_tl_dropWhile])

lemma ReadFull_le:
  "ReadFull r k = (x, r1) \<Longrightarrow> length r1 \<le> length r"
  by (auto simp: ReadFull_def split: if_splits)

lemma ReadProtocol_shrinks_dom:
  "ReadProtocol_ReadProtocol_loop_dom (Inl r) \<Longrightarrow>
     (\<forall>v e r1. ReadProtocol r = Inr ((v, e), r1) \<longrightarrow>
        length r1 \<le> length r \<and> (v \<noteq> None \<longrightarrow> length r1 < length r))"
  "ReadProtocol_ReadProtocol_loop_dom (Inr (i, n, ar, r)) \<Longrightarrow>
     (\<forall>v e r1. ReadProtocol_loop i n ar r = Inr ((v, e), r1) \<longrightarrow> length r1 \<le> length r)"
proof (induction r and i n ar r rule: ReadProtocol_ReadProtocol_loop.pinduct)
  case (1 r)
  show ?case
  proof (intro allI impI)
    fix v e' r1
    assume eq: "ReadProtocol r = Inr ((v, e'), r1)"
    obtain res e r0 where rb: "ReadBytes r LF = ((res, e), r0)"
      by (cases "ReadBytes r LF") auto
    show "length r1 \<le> length r \<and> (v \<noteq> None \<longrightarrow> length r1 < length r)"
    proof (cases e)
      case (Some err)
      with eq rb have "r1 = r0" "v = None"
        by (auto simp: ReadProtocol.psimps[OF 1(1)])
      with rb show ?thesis
        using ReadBytes_le by auto
    next
      case None
      with rb have lt: "length r0 < length r"
        using ReadBytes_shrinks by blast
      have "length r1 \<le> length r0"
        using eq rb None 1(2)[of "(res, e)" r0 res e]
        by (auto simp: ReadProtocol.psimps[OF 1(1)]
            split: list.splits sum.splits if_splits prod.splits dest: ReadFull_le)
      with lt show ?thesis by simp
    qed
  qed
next
  case (2 i n ar r)
  show ?case
  proof (intro allI impI)
    fix v e' r1
    assume eq: "ReadProtocol_loop i n ar r = Inr ((v, e'), r1)"
    show "length r1 \<le> length r"
    proof (cases "i < n")
      case False
      with eq show ?thesis
        by (simp add: ReadProtocol_loop.psimps[OF 2(1)])
    next
      case True
      show ?thesis
      proof (cases "ReadProtocol r")
        case (Inl p)
        with eq True show ?thesis
          by (simp add: ReadProtocol_loop.psimps[OF 2(1)])
      next
        case (Inr b)
        obtain rsp err r0 where b: "b = ((rsp, err), r0)"
          by (cases b) auto
        from 2(2)[OF True] Inr b have le0: "length r0 \<le> length r"
          by simp
        have "length r1 \<le> length r0"
          using eq True Inr b 2(3)[OF True Inr, of "(rsp, err)" r0 rsp err]
          by (auto simp: ReadProtocol_loop.psimps[OF 2(1)]
              split: option.splits Resp.splits)
        with le0 show ?thesis by simp
      qed
    qed
  qed
qed

lemma ReadProtocol_value_shrinks_dom:
  "ReadProtocol_ReadProtocol_loop_dom (Inl r) \<Longrightarrow>
     ReadProtocol r = Inr ((Some v, e), r1) \<Longrightarrow> length r1 < length r"
  using ReadProtocol_shrinks_dom(1)[of r] by auto

termination ReadProtocol
  apply (relation "measure (\<lambda>x. case x of Inl r \<Rightarrow> 2 * length r
                                    | Inr (i, n, ar, r) \<Rightarrow> 2 * length r + 1)")
     apply simp
    apply (auto dest: ReadBytes_shrinks[OF sym] ReadProtocol_value_shrinks_dom)
  done

declare ReadProtocol.simps [simp del]
declare ReadProtocol_loop.simps [simp del]

subsection \<open>Constructible values\<close>

text \<open>
  The invariants of section 3 of the specification. A simple string, an error and
  an integer hold exactly one element, a line: it has no line feed in it. A bulk
  string is either null (marked \<open>Empty\<close>, no element) or holds exactly one
  element, of any content. An array holds bulk strings only, and nothing in the
  \<open>Args\<close> it inherits. The type tag is that of the kind.
\<close>

definition one_line :: "'a BaseResp_scheme \<Rightarrow> bool" where
  "one_line b \<longleftrightarrow> (case Args b of [a] \<Rightarrow> LF \<notin> set a | _ \<Rightarrow> False)"

definition valid_Bulk :: "BulkResp \<Rightarrow> bool" where
  "valid_Bulk br \<longleftrightarrow>
     Rtype br = BulkType \<and> (if Empty br then Args br = [] else length (Args br) = 1)"

fun valid :: "Resp \<Rightarrow> bool" where
  "valid (RSimple sr) \<longleftrightarrow> Rtype sr = SimpleType \<and> one_line sr"
| "valid (RError er) \<longleftrightarrow> Rtype er = ErrorType \<and> one_line er"
| "valid (RInt ir) \<longleftrightarrow> Rtype ir = IntType \<and> one_line ir"
| "valid (RBulk br) \<longleftrightarrow> valid_Bulk br"
| "valid (RArray ar) \<longleftrightarrow>
     Rtype ar = ArrayType \<and> Args ar = [] \<and> list_all valid_Bulk (ArrayArgs ar)"

subsection \<open>Well-formed frames\<close>

text \<open>
  The wire format of section 6 of the specification, for the handled subset (the
  children of an array are bulk strings). The body of a header line has no line
  feed; the content of a bulk string is arbitrary. A length or a count is an
  ASCII decimal: one digit or more, read in base ten (\<open>decimal_field\<close>). The
  encoder writes the decimal that \<open>Itob\<close> renders, which has no leading zero
  (\<open>canonical_field\<close>). The frames are defined for a relation \<open>fld\<close> between the
  text of such a field and the number it stands for; \<open>wf_frame\<close> takes every
  decimal, \<open>canonical_frame\<close> the decimal of the encoder only.
\<close>

definition decimal_field :: "bytes \<Rightarrow> nat \<Rightarrow> bool" where
  "decimal_field d n \<longleftrightarrow>
     d \<noteq> [] \<and> list_all is_digit d \<and> foldl (\<lambda>n b. n * 10 + digit_val b) 0 d = int n"

definition canonical_field :: "bytes \<Rightarrow> nat \<Rightarrow> bool" where
  "canonical_field d n \<longleftrightarrow> d = Itob n"

inductive bulk_frame :: "(bytes \<Rightarrow> nat \<Rightarrow> bool) \<Rightarrow> bytes \<Rightarrow> bool"
  for fld :: "bytes \<Rightarrow> nat \<Rightarrow> bool" where
  null_bulk: "bulk_frame fld (''$-1'' @ CRLF)"
| data_bulk: "fld d (length c) \<Longrightarrow> bulk_frame fld ([BulkSep] @ d @ CRLF @ c @ CRLF)"

inductive bulk_frames :: "(bytes \<Rightarrow> nat \<Rightarrow> bool) \<Rightarrow> nat \<Rightarrow> bytes \<Rightarrow> bool"
  for fld :: "bytes \<Rightarrow> nat \<Rightarrow> bool" where
  no_frame: "bulk_frames fld 0 []"
| next_frame:
    "bulk_frame fld f \<Longrightarrow> bulk_frames fld n fs \<Longrightarrow> bulk_frames fld (Suc n) (f @ fs)"

inductive wire_frame :: "(bytes \<Rightarrow> nat \<Rightarrow> bool) \<Rightarrow> bytes \<Rightarrow> bool"
  for fld :: "bytes \<Rightarrow> nat \<Rightarrow> bool" where
  simple_frame: "LF \<notin> set p \<Longrightarrow> wire_frame fld ([SimpSep] @ p @ CRLF)"
| error_frame: "LF \<notin> set p \<Longrightarrow> wire_frame fld ([ErrSep] @ p @ CRLF)"
| int_frame: "LF \<notin> set p \<Longrightarrow> wire_frame fld ([IntSep] @ p @ CRLF)"
| bulk_string_frame: "bulk_frame fld f \<Longrightarrow> wire_frame fld f"
| array_frame:
    "fld d n \<Longrightarrow> bulk_frames fld n fs \<Longrightarrow> wire_frame fld ([ArrSep] @ d @ CRLF @ fs)"

definition wf_frame :: "bytes \<Rightarrow> bool" where
  "wf_frame bs \<longleftrightarrow> wire_frame decimal_field bs"

definition canonical_frame :: "bytes \<Rightarrow> bool" where
  "canonical_frame bs \<longleftrightarrow> wire_frame canonical_field bs"

subsection \<open>Decoding several values in a row\<close>

text \<open>\<open>read_values k r\<close> calls the decoder \<open>k\<close> times in a row on the stream \<open>r\<close>:
  the values in the order read and the stream that is left, when every call
  returns a value and no error.\<close>

fun read_values :: "nat \<Rightarrow> Reader \<Rightarrow> (Resp list \<times> Reader) option" where
  "read_values 0 r = Some ([], r)"
| "read_values (Suc k) r =
     (case ReadProtocol r of
        Inr ((Some v, None), r1) \<Rightarrow>
          (case read_values k r1 of
             Some (vs, r2) \<Rightarrow> Some (v # vs, r2)
           | None \<Rightarrow> None)
      | _ \<Rightarrow> None)"

section \<open>Properties\<close>

subsection \<open>Auxiliary facts\<close>

lemmas sep_defs =
  SimpSep_def ErrSep_def IntSep_def BulkSep_def ArrSep_def CR_def LF_def CRLF_def

lemma ReadBytes_line:
  "d \<notin> set p \<Longrightarrow> ReadBytes (p @ d # r) d = ((p @ [d], None), r)"
proof -
  assume d: "d \<notin> set p"
  then have "takeWhile (\<lambda>c. c \<noteq> d) (p @ d # r) = p"
    by (induction p) auto
  moreover from d have "dropWhile (\<lambda>c. c \<noteq> d) (p @ d # r) = d # r"
    by (induction p) auto
  ultimately show ?thesis
    by (simp add: ReadBytes_def)
qed

lemma ReadBytes_header:
  "LF \<noteq> c \<Longrightarrow> LF \<notin> set p \<Longrightarrow>
     ReadBytes (c # p @ CRLF @ r) LF = ((c # p @ CRLF, None), r)"
  using ReadBytes_line[of LF "c # p @ [CR]" r] by (simp add: CRLF_def CR_def LF_def)

lemma subslice_header:
  "subslice (c # p @ CRLF) 1 (int (length (c # p @ CRLF)) - 2) = Inr p"
  by (simp add: subslice_def CRLF_def)

lemma char_of_48: "char_of (48::nat) = CHR ''0''"
  by code_simp

lemma of_char_digit_char: "d < 10 \<Longrightarrow> of_char (digit_char d) = 48 + d"
  by (simp add: digit_char_def)

lemma is_digit_digit_char: "d < 10 \<Longrightarrow> is_digit (digit_char d)"
  by (simp add: is_digit_def of_char_digit_char)

lemma digit_val_digit_char: "d < 10 \<Longrightarrow> digit_val (digit_char d) = int d"
  by (simp add: digit_val_def of_char_digit_char)

lemma is_digit_not_special: "is_digit c \<Longrightarrow> c \<noteq> LF \<and> c \<noteq> CR \<and> c \<noteq> CHR ''-''"
  by (auto simp: is_digit_def LF_def CR_def)

lemma Itob_digits: "list_all is_digit (Itob n)"
  by (induction n rule: Itob.induct) (subst Itob.simps, simp add: is_digit_digit_char)

lemma Itob_nonempty: "Itob n \<noteq> []"
  by (subst Itob.simps) simp

lemma foldl_Itob: "foldl (\<lambda>n b. n * 10 + digit_val b) 0 (Itob n) = int n"
proof (induction n rule: Itob.induct)
  case (1 n)
  show ?case
  proof (cases "n < 10")
    case True
    then show ?thesis by (subst Itob.simps) (simp add: digit_val_digit_char)
  next
    case False
    with 1 have "foldl (\<lambda>n b. n * 10 + digit_val b) 0 (Itob (n div 10)) = int (n div 10)"
      by simp
    with False show ?thesis
      by (subst Itob.simps) (simp add: digit_val_digit_char zdiv_int zmod_int)
  qed
qed

lemma ParseLen_Itob: "ParseLen (Itob n) = Inr (int n)"
proof -
  have "Itob n \<noteq> ''-1''"
    using Itob_digits[of n] is_digit_not_special[of "CHR ''-''"] by auto
  then show ?thesis
    by (simp add: ParseLen_def Itob_nonempty Itob_digits foldl_Itob)
qed

lemma LF_notin_Itob: "LF \<notin> set (Itob n)"
  using Itob_digits[of n] is_digit_not_special by (auto simp: list_all_iff)

subsection \<open>The argument count\<close>

text \<open>
  C8. For an array, \<open>Length\<close> is the number of children minus one (so \<open>-1\<close> for the
  array without children); for a value of any other kind it is zero.
\<close>

theorem Length_counts_children_less_one:
  "Length (RArray ar) = int (length (ArrayArgs ar)) - 1
   \<and> Length (RSimple sr) = 0 \<and> Length (RError er) = 0
   \<and> Length (RInt ir) = 0 \<and> Length (RBulk br) = 0"
  by (simp add: ArrayResp_Length_def BaseResp_Length_def)

subsection \<open>The null bulk string\<close>

text \<open>
  C5. The five bytes \<^verbatim>\<open>$-1\r\n\<close> decode to the null bulk string and nothing after
  them is consumed; the null bulk string encodes to exactly these bytes; the
  bulk string of length zero that is not null encodes to \<^verbatim>\<open>$0\r\n\r\n\<close>: a zero
  length, an empty payload, both terminators; the two encodings differ.
\<close>

theorem null_bulk_marker:
  "length (''$-1'' @ CRLF) = 5
   \<and> ReadProtocol (''$-1'' @ CRLF @ r)
       = Inr ((Some (RBulk \<lparr>Rtype = BulkType, Args = [], Empty = True\<rparr>), None), r)
   \<and> Encode (RBulk \<lparr>Rtype = BulkType, Args = [], Empty = True\<rparr>) = Inr (''$-1'' @ CRLF)
   \<and> Encode (RBulk \<lparr>Rtype = BulkType, Args = [[]], Empty = False\<rparr>)
       = Inr (''$0'' @ CRLF @ [] @ CRLF)
   \<and> Encode (RBulk \<lparr>Rtype = BulkType, Args = [[]], Empty = False\<rparr>)
       \<noteq> Encode (RBulk \<lparr>Rtype = BulkType, Args = [], Empty = True\<rparr>)"
proof -
  have rb: "ReadBytes (''$-1'' @ CRLF @ r) LF = ((''$-1'' @ CRLF, None), r)"
    using ReadBytes_line[of LF "''$-1'' @ [CR]" r] by (simp add: sep_defs)
  have dec: "ReadProtocol (''$-1'' @ CRLF @ r)
       = Inr ((Some (RBulk \<lparr>Rtype = BulkType, Args = [], Empty = True\<rparr>), None), r)"
    by (subst ReadProtocol.simps, subst rb) (simp add: sep_defs subslice_def ParseLen_def)
  have enc: "Encode (RBulk \<lparr>Rtype = BulkType, Args = [], Empty = True\<rparr>) = Inr (''$-1'' @ CRLF)"
    by (simp add: BulkResp_Encode_def CRLF_def)
  have enc0: "Encode (RBulk \<lparr>Rtype = BulkType, Args = [[]], Empty = False\<rparr>)
       = Inr (''$0'' @ CRLF @ [] @ CRLF)"
    by (simp add: BulkResp_Encode_def index0_def sep_defs Itob.simps digit_char_def char_of_48)
  have ne: "Encode (RBulk \<lparr>Rtype = BulkType, Args = [[]], Empty = False\<rparr>)
       \<noteq> Encode (RBulk \<lparr>Rtype = BulkType, Args = [], Empty = True\<rparr>)"
    unfolding enc enc0 by (simp add: sep_defs)
  show ?thesis using dec enc enc0 ne by (simp add: CRLF_def)
qed

subsection \<open>A short read in a bulk string\<close>

lemma ReadProtocol_short_bulk:
  assumes "LF \<notin> set d" and "ParseLen d = Inr l" and "0 \<le> l" and "l + 2 < 2 ^ 63"
    and "int (length body) < l + 2"
  shows "ReadProtocol ([BulkSep] @ d @ CRLF @ body) = Inr ((None, None), [])"
proof -
  have rb: "ReadBytes (BulkSep # d @ CRLF @ body) LF = ((BulkSep # d @ CRLF, None), body)"
    using assms(1) by (intro ReadBytes_header) (simp_all add: sep_defs)
  from assms(3,5) have "\<not> nat (l + 2) \<le> length body"
    by linarith
  then have rf: "ReadFull body (nat (l + 2))
      = ((body @ replicate (nat (l + 2) - length body) (CHR 0x00), length body,
          Some (if body = [] then EOF else ErrUnexpectedEOF)), [])"
    by (simp add: ReadFull_def)
  show ?thesis
    using subslice_header[of BulkSep d] assms(2,3)
    by (simp, subst ReadProtocol.simps, subst rb) (simp add: sep_defs rf)
qed

text \<open>
  C1. A bulk header declares ten bytes and the stream ends after eleven of the
  twelve bytes to come. \<open>ReadProtocol\<close> returns no value, and no error either:
  both results are nil, because the error returned is that of \<^verbatim>\<open>util.ParseLen\<close>
  and not that of \<^verbatim>\<open>io.ReadFull\<close>. (\<open>ReadProtocol_short_bulk\<close> shows the same for every
  declared length \<open>l \<ge> 0\<close> for which \<open>l + 2\<close> is within the range of \<^verbatim>\<open>int\<close>, and every
  stream that ends before \<open>l + 2\<close> bytes.)
\<close>

theorem short_bulk_read_returns_nil_nil:
  "ReadProtocol (''$10'' @ CRLF @ ''0123456789'' @ [CR]) = Inr ((None, None), [])"
  by code_simp

subsection \<open>A header line shorter than three bytes\<close>

text \<open>The terminator of a header line is not looked at: the last two bytes of the
  line are dropped, whatever they are.\<close>

lemma bare_LF_header_accepted:
  "ReadProtocol (''+OK'' @ [LF])
     = Inr ((Some (RSimple \<lparr>Rtype = SimpleType, Args = [''O'']\<rparr>), None), [])"
  by code_simp

text \<open>
  C2. On a line that is one of the five sigils and a line feed, two bytes, the
  slice expression \<^verbatim>\<open>res[1 : len(res)-2]\<close> is \<^verbatim>\<open>res[1:0]\<close>: \<open>ReadProtocol\<close> panics,
  whatever follows on the stream.
\<close>

theorem short_header_line_panics:
  "ReadProtocol ([SimpSep, LF] @ r) = Inl SliceBoundsOutOfRange
   \<and> ReadProtocol ([ErrSep, LF] @ r) = Inl SliceBoundsOutOfRange
   \<and> ReadProtocol ([IntSep, LF] @ r) = Inl SliceBoundsOutOfRange
   \<and> ReadProtocol ([BulkSep, LF] @ r) = Inl SliceBoundsOutOfRange
   \<and> ReadProtocol ([ArrSep, LF] @ r) = Inl SliceBoundsOutOfRange"
proof -
  have p: "ReadProtocol ([c, LF] @ r) = Inl SliceBoundsOutOfRange"
    if c: "c = SimpSep \<or> c = ErrSep \<or> c = IntSep \<or> c = BulkSep \<or> c = ArrSep" for c
  proof -
    from c have "LF \<notin> set [c]"
      by (auto simp: sep_defs)
    then have rb: "ReadBytes ([c, LF] @ r) LF = (([c, LF], None), r)"
      using ReadBytes_line[of LF "[c]" r] by simp
    from c show ?thesis
      by (subst ReadProtocol.simps, subst rb) (auto simp: subslice_def sep_defs)
  qed
  show ?thesis
    by (intro conjI p) simp_all
qed

subsection \<open>Inline commands\<close>

text \<open>A line that starts with \<^verbatim>\<open>Q\<close>, \<^verbatim>\<open>q\<close>, \<^verbatim>\<open>p\<close> or \<^verbatim>\<open>P\<close>: only its length is looked at.\<close>

lemma ReadProtocol_inline:
  assumes "LF \<notin> set p"
    and "c = CHR ''Q'' \<or> c = CHR ''q'' \<or> c = CHR ''p'' \<or> c = CHR ''P''"
  shows "ReadProtocol (c # p @ LF # r) =
     (if length (c # p @ [LF]) \<noteq> 6
      then Inr ((None, Some (ErrorString ''raw command must be quit or ping'')), r)
      else Inr ((Some (RArray \<lparr>Rtype = ArrayType, Args = [],
                   ArrayArgs = [\<lparr>Rtype = BulkType,
                     Args = [if c = CHR ''Q'' \<or> c = CHR ''q'' then ''QUIT'' else ''PING''],
                     Empty = False\<rparr>]\<rparr>), None), r))"
proof -
  from assms have "LF \<notin> set (c # p)"
    by (auto simp: LF_def)
  then have rb: "ReadBytes (c # p @ LF # r) LF = ((c # p @ [LF], None), r)"
    using ReadBytes_line[of LF "c # p" r] by simp
  from assms(2) show ?thesis
    by (subst ReadProtocol.simps, subst rb) (auto simp: sep_defs)
qed

text \<open>
  C6. \<^verbatim>\<open>PING\r\n\<close> and \<^verbatim>\<open>ping\r\n\<close> decode to an array of one bulk string \<^verbatim>\<open>PING\<close>,
  \<^verbatim>\<open>QUIT\r\n\<close> to an array of one bulk string \<^verbatim>\<open>QUIT\<close>; a line (the bytes up to and
  including the first line feed) that starts with \<^verbatim>\<open>P\<close>, \<^verbatim>\<open>p\<close>, \<^verbatim>\<open>Q\<close> or \<^verbatim>\<open>q\<close> and is
  not six bytes long is rejected with the error
  \<^verbatim>\<open>raw command must be quit or ping\<close>, and no value is returned.
\<close>

theorem inline_PING_QUIT:
  "ReadProtocol (''PING'' @ CRLF @ r)
     = Inr ((Some (RArray \<lparr>Rtype = ArrayType, Args = [],
              ArrayArgs = [\<lparr>Rtype = BulkType, Args = [''PING''], Empty = False\<rparr>]\<rparr>), None), r)
   \<and> ReadProtocol (''ping'' @ CRLF @ r)
     = Inr ((Some (RArray \<lparr>Rtype = ArrayType, Args = [],
              ArrayArgs = [\<lparr>Rtype = BulkType, Args = [''PING''], Empty = False\<rparr>]\<rparr>), None), r)
   \<and> ReadProtocol (''QUIT'' @ CRLF @ r)
     = Inr ((Some (RArray \<lparr>Rtype = ArrayType, Args = [],
              ArrayArgs = [\<lparr>Rtype = BulkType, Args = [''QUIT''], Empty = False\<rparr>]\<rparr>), None), r)
   \<and> ((c = CHR ''P'' \<or> c = CHR ''p'' \<or> c = CHR ''Q'' \<or> c = CHR ''q'')
        \<and> LF \<notin> set p \<and> length (c # p @ [LF]) \<noteq> 6
      \<longrightarrow> ReadProtocol (c # p @ LF # r)
            = Inr ((None, Some (ErrorString ''raw command must be quit or ping'')), r))"
proof -
  have cr: "LF \<notin> set (''ING'' @ [CR])" "LF \<notin> set (''ing'' @ [CR])" "LF \<notin> set (''UIT'' @ [CR])"
    by (simp_all add: sep_defs)
  have 1: "ReadProtocol (''PING'' @ CRLF @ r)
     = Inr ((Some (RArray \<lparr>Rtype = ArrayType, Args = [],
              ArrayArgs = [\<lparr>Rtype = BulkType, Args = [''PING''], Empty = False\<rparr>]\<rparr>), None), r)"
    using ReadProtocol_inline[OF cr(1), of "CHR ''P''" r] by (simp add: CRLF_def)
  have 2: "ReadProtocol (''ping'' @ CRLF @ r)
     = Inr ((Some (RArray \<lparr>Rtype = ArrayType, Args = [],
              ArrayArgs = [\<lparr>Rtype = BulkType, Args = [''PING''], Empty = False\<rparr>]\<rparr>), None), r)"
    using ReadProtocol_inline[OF cr(2), of "CHR ''p''" r] by (simp add: CRLF_def)
  have 3: "ReadProtocol (''QUIT'' @ CRLF @ r)
     = Inr ((Some (RArray \<lparr>Rtype = ArrayType, Args = [],
              ArrayArgs = [\<lparr>Rtype = BulkType, Args = [''QUIT''], Empty = False\<rparr>]\<rparr>), None), r)"
    using ReadProtocol_inline[OF cr(3), of "CHR ''Q''" r] by (simp add: CRLF_def)
  have 4: "(c = CHR ''P'' \<or> c = CHR ''p'' \<or> c = CHR ''Q'' \<or> c = CHR ''q'')
        \<and> LF \<notin> set p \<and> length (c # p @ [LF]) \<noteq> 6
      \<longrightarrow> ReadProtocol (c # p @ LF # r)
            = Inr ((None, Some (ErrorString ''raw command must be quit or ping'')), r)"
    using ReadProtocol_inline[of p c r] by auto
  from 1 2 3 4 show ?thesis by blast
qed

theorem inline_PING_QUIT_witness:
  "ReadProtocol (''PING'' @ CRLF)
     = Inr ((Some (RArray \<lparr>Rtype = ArrayType, Args = [],
              ArrayArgs = [\<lparr>Rtype = BulkType, Args = [''PING''], Empty = False\<rparr>]\<rparr>), None), [])
   \<and> LF \<notin> set (''INGPONG'' @ [CR]) \<and> length (''PINGPONG'' @ [CR, LF]) \<noteq> 6
   \<and> ReadProtocol (''PINGPONG'' @ [CR, LF] @ ''+OK'')
            = Inr ((None, Some (ErrorString ''raw command must be quit or ping'')), ''+OK'')"
  using inline_PING_QUIT[of "[]" "CHR ''P''" "''INGPONG'' @ [CR]"]
    inline_PING_QUIT[of "''+OK''" "CHR ''P''" "''INGPONG'' @ [CR]"]
  by (simp add: LF_def CR_def)

text \<open>
  C10. A line of six bytes, the line feed included, that starts with \<^verbatim>\<open>P\<close> or \<^verbatim>\<open>p\<close>
  decodes to an array of one bulk string \<^verbatim>\<open>PING\<close>, whatever its other four bytes
  before the line feed are (\<^verbatim>\<open>PONG\r\n\<close> does); one that starts with \<^verbatim>\<open>Q\<close> or \<^verbatim>\<open>q\<close>
  decodes to an array of one bulk string \<^verbatim>\<open>QUIT\<close>.
\<close>

theorem inline_first_byte_only:
  assumes "LF \<notin> set p" and "length p = 4"
  shows "(c = CHR ''P'' \<or> c = CHR ''p'' \<longrightarrow>
          ReadProtocol (c # p @ LF # r)
            = Inr ((Some (RArray \<lparr>Rtype = ArrayType, Args = [],
                 ArrayArgs = [\<lparr>Rtype = BulkType, Args = [''PING''], Empty = False\<rparr>]\<rparr>), None), r))
       \<and> (c = CHR ''Q'' \<or> c = CHR ''q'' \<longrightarrow>
          ReadProtocol (c # p @ LF # r)
            = Inr ((Some (RArray \<lparr>Rtype = ArrayType, Args = [],
                 ArrayArgs = [\<lparr>Rtype = BulkType, Args = [''QUIT''], Empty = False\<rparr>]\<rparr>), None), r))"
  using ReadProtocol_inline[OF assms(1), of c r] assms(2) by auto

theorem inline_first_byte_only_witness:
  "LF \<notin> set (''ONG'' @ [CR]) \<and> length (''ONG'' @ [CR]) = 4
   \<and> ReadProtocol (''PONG'' @ [CR, LF])
       = Inr ((Some (RArray \<lparr>Rtype = ArrayType, Args = [],
                 ArrayArgs = [\<lparr>Rtype = BulkType, Args = [''PING''], Empty = False\<rparr>]\<rparr>), None), [])
   \<and> ReadProtocol (''quux!'' @ [LF])
       = Inr ((Some (RArray \<lparr>Rtype = ArrayType, Args = [],
                 ArrayArgs = [\<lparr>Rtype = BulkType, Args = [''QUIT''], Empty = False\<rparr>]\<rparr>), None), [])"
proof -
  have h1: "LF \<notin> set (''ONG'' @ [CR])" and h2: "length (''ONG'' @ [CR]) = 4"
    by (simp_all add: LF_def CR_def)
  have h3: "LF \<notin> set ''uux!''" and h4: "length ''uux!'' = 4"
    by (simp_all add: LF_def)
  show ?thesis
    using h1 h2 inline_first_byte_only[OF h1 h2, of "CHR ''P''" "[]"]
      inline_first_byte_only[OF h3 h4, of "CHR ''q''" "[]"]
    by simp
qed


subsection \<open>The type assertion of \<^verbatim>\<open>Encode\<close>\<close>

lemma BulkResp_Encode_panic:
  "BulkResp_Encode br = Inl p \<Longrightarrow>
     p = IndexOutOfRange \<or> (\<exists>m. p = PanicString (''BulkResp Encode Type error: '' @ m))"
  by (auto simp: BulkResp_Encode_def index0_def split: if_splits list.splits)

lemma ArrayResp_Encode_loop_panic:
  "ArrayResp_Encode_loop args b = Inl p \<Longrightarrow>
     p = IndexOutOfRange \<or> (\<exists>m. p = PanicString (''BulkResp Encode Type error: '' @ m))"
proof (induction args arbitrary: b)
  case Nil
  then show ?case by simp
next
  case (Cons arg args)
  show ?case
  proof (cases "BulkResp_Encode arg")
    case (Inl q)
    with Cons.prems have "p = q" by simp
    with Inl show ?thesis using BulkResp_Encode_panic by blast
  next
    case (Inr e)
    with Cons.prems have "ArrayResp_Encode_loop args (b @ e) = Inl p" by simp
    then show ?thesis by (rule Cons.IH)
  qed
qed

text \<open>
  C9. Each \<open>Encode\<close> panics with its type error when the type tag of the value is
  not the tag of the method's own type, and then never returns; when the tag is
  the expected one, that panic does not occur.
\<close>

theorem Encode_type_assertion:
  "(Rtype sr \<noteq> SimpleType \<longrightarrow>
      Encode (RSimple sr) = Inl (PanicString
        (''SimpleResp Encode Type error: '' @ Rtype sr @ '', expected simple'')))
   \<and> (Rtype sr = SimpleType \<longrightarrow>
      (\<forall>m. Encode (RSimple sr) \<noteq> Inl (PanicString (''SimpleResp Encode Type error: '' @ m))))
   \<and> (Rtype er \<noteq> ErrorType \<longrightarrow>
      Encode (RError er) = Inl (PanicString
        (''ErrorResp Encode Type error: '' @ Rtype er @ '', expected error'')))
   \<and> (Rtype er = ErrorType \<longrightarrow>
      (\<forall>m. Encode (RError er) \<noteq> Inl (PanicString (''ErrorResp Encode Type error: '' @ m))))
   \<and> (Rtype ir \<noteq> IntType \<longrightarrow>
      Encode (RInt ir) = Inl (PanicString
        (''IntResp Encode Type error: '' @ Rtype ir @ '', expected int'')))
   \<and> (Rtype ir = IntType \<longrightarrow>
      (\<forall>m. Encode (RInt ir) \<noteq> Inl (PanicString (''IntResp Encode Type error: '' @ m))))
   \<and> (Rtype br \<noteq> BulkType \<longrightarrow>
      Encode (RBulk br) = Inl (PanicString
        (''BulkResp Encode Type error: '' @ Rtype br @ '', expected bulk'')))
   \<and> (Rtype br = BulkType \<longrightarrow>
      (\<forall>m. Encode (RBulk br) \<noteq> Inl (PanicString (''BulkResp Encode Type error: '' @ m))))
   \<and> (Rtype ar \<noteq> ArrayType \<longrightarrow>
      Encode (RArray ar) = Inl (PanicString
        (''ArrayResp Encode Type error: '' @ Rtype ar @ '', expected array'')))
   \<and> (Rtype ar = ArrayType \<longrightarrow>
      (\<forall>m. Encode (RArray ar) \<noteq> Inl (PanicString (''ArrayResp Encode Type error: '' @ m))))"
proof -
  have s: "(Rtype sr \<noteq> SimpleType \<longrightarrow>
      Encode (RSimple sr) = Inl (PanicString
        (''SimpleResp Encode Type error: '' @ Rtype sr @ '', expected simple'')))
   \<and> (Rtype sr = SimpleType \<longrightarrow>
      (\<forall>m. Encode (RSimple sr) \<noteq> Inl (PanicString (''SimpleResp Encode Type error: '' @ m))))"
    by (auto simp: SimpleResp_Encode_def SimpleType_def index0_def split: list.splits)
  have e: "(Rtype er \<noteq> ErrorType \<longrightarrow>
      Encode (RError er) = Inl (PanicString
        (''ErrorResp Encode Type error: '' @ Rtype er @ '', expected error'')))
   \<and> (Rtype er = ErrorType \<longrightarrow>
      (\<forall>m. Encode (RError er) \<noteq> Inl (PanicString (''ErrorResp Encode Type error: '' @ m))))"
    by (auto simp: ErrorResp_Encode_def ErrorType_def index0_def split: list.splits)
  have i: "(Rtype ir \<noteq> IntType \<longrightarrow>
      Encode (RInt ir) = Inl (PanicString
        (''IntResp Encode Type error: '' @ Rtype ir @ '', expected int'')))
   \<and> (Rtype ir = IntType \<longrightarrow>
      (\<forall>m. Encode (RInt ir) \<noteq> Inl (PanicString (''IntResp Encode Type error: '' @ m))))"
    by (auto simp: IntResp_Encode_def IntType_def index0_def split: list.splits)
  have b: "(Rtype br \<noteq> BulkType \<longrightarrow>
      Encode (RBulk br) = Inl (PanicString
        (''BulkResp Encode Type error: '' @ Rtype br @ '', expected bulk'')))
   \<and> (Rtype br = BulkType \<longrightarrow>
      (\<forall>m. Encode (RBulk br) \<noteq> Inl (PanicString (''BulkResp Encode Type error: '' @ m))))"
    by (auto simp: BulkResp_Encode_def BulkType_def index0_def split: list.splits)
  have a1: "Rtype ar \<noteq> ArrayType \<longrightarrow>
      Encode (RArray ar) = Inl (PanicString
        (''ArrayResp Encode Type error: '' @ Rtype ar @ '', expected array''))"
    by (simp add: ArrayResp_Encode_def ArrayType_def)
  have a2: "Rtype ar = ArrayType \<longrightarrow>
      (\<forall>m. Encode (RArray ar) \<noteq> Inl (PanicString (''ArrayResp Encode Type error: '' @ m)))"
  proof (intro impI allI notI)
    fix m
    assume "Rtype ar = ArrayType"
      and "Encode (RArray ar) = Inl (PanicString (''ArrayResp Encode Type error: '' @ m))"
    then have "ArrayResp_Encode_loop (ArrayArgs ar) ([ArrSep] @ Itob (length (ArrayArgs ar)) @ CRLF)
        = Inl (PanicString (''ArrayResp Encode Type error: '' @ m))"
      by (simp add: ArrayResp_Encode_def)
    from ArrayResp_Encode_loop_panic[OF this] show False
      by simp
  qed
  from s e i b a1 a2 show ?thesis by blast
qed

theorem Encode_type_assertion_witness:
  "Encode (RSimple \<lparr>Rtype = ''bulk'', Args = [''OK'']\<rparr>)
     = Inl (PanicString ''SimpleResp Encode Type error: bulk, expected simple'')
   \<and> Encode (RError \<lparr>Rtype = ''bulk'', Args = [''OK'']\<rparr>)
     = Inl (PanicString ''ErrorResp Encode Type error: bulk, expected error'')
   \<and> Encode (RInt \<lparr>Rtype = ''bulk'', Args = [''OK'']\<rparr>)
     = Inl (PanicString ''IntResp Encode Type error: bulk, expected int'')
   \<and> Encode (RBulk \<lparr>Rtype = ''int'', Args = [''OK''], Empty = False\<rparr>)
     = Inl (PanicString ''BulkResp Encode Type error: int, expected bulk'')
   \<and> Encode (RArray \<lparr>Rtype = ''bulk'', Args = [], ArrayArgs = []\<rparr>)
     = Inl (PanicString ''ArrayResp Encode Type error: bulk, expected array'')
   \<and> Encode (RSimple \<lparr>Rtype = ''simple'', Args = [''OK'']\<rparr>)
     \<noteq> Inl (PanicString ''SimpleResp Encode Type error: simple, expected simple'')
   \<and> Encode (RError \<lparr>Rtype = ''error'', Args = [''OK'']\<rparr>)
     \<noteq> Inl (PanicString ''ErrorResp Encode Type error: error, expected error'')
   \<and> Encode (RInt \<lparr>Rtype = ''int'', Args = [''OK'']\<rparr>)
     \<noteq> Inl (PanicString ''IntResp Encode Type error: int, expected int'')
   \<and> Encode (RBulk \<lparr>Rtype = ''bulk'', Args = [''OK''], Empty = False\<rparr>)
     \<noteq> Inl (PanicString ''BulkResp Encode Type error: bulk, expected bulk'')
   \<and> Encode (RArray \<lparr>Rtype = ''array'', Args = [], ArrayArgs = []\<rparr>)
     \<noteq> Inl (PanicString ''ArrayResp Encode Type error: array, expected array'')"
  using Encode_type_assertion[of "\<lparr>Rtype = ''bulk'', Args = [''OK'']\<rparr>"
      "\<lparr>Rtype = ''bulk'', Args = [''OK'']\<rparr>" "\<lparr>Rtype = ''bulk'', Args = [''OK'']\<rparr>"
      "\<lparr>Rtype = ''int'', Args = [''OK''], Empty = False\<rparr>"
      "\<lparr>Rtype = ''bulk'', Args = [], ArrayArgs = []\<rparr>"]
    Encode_type_assertion[of "\<lparr>Rtype = ''simple'', Args = [''OK'']\<rparr>"
      "\<lparr>Rtype = ''error'', Args = [''OK'']\<rparr>" "\<lparr>Rtype = ''int'', Args = [''OK'']\<rparr>"
      "\<lparr>Rtype = ''bulk'', Args = [''OK''], Empty = False\<rparr>"
      "\<lparr>Rtype = ''array'', Args = [], ArrayArgs = []\<rparr>"]
  by (simp add: SimpleType_def ErrorType_def IntType_def BulkType_def ArrayType_def)


subsection \<open>Arrays\<close>

lemma ReadProtocol_array_header:
  assumes "LF \<notin> set d" and "ParseLen d = Inr n"
  shows "ReadProtocol ([ArrSep] @ d @ CRLF @ r)
           = ReadProtocol_loop 0 n \<lparr>Rtype = ArrayType, Args = [], ArrayArgs = []\<rparr> r"
proof -
  have rb: "ReadBytes (ArrSep # d @ CRLF @ r) LF = ((ArrSep # d @ CRLF, None), r)"
    using assms(1) by (intro ReadBytes_header) (simp_all add: sep_defs)
  show ?thesis
    using subslice_header[of ArrSep d] assms(2)
    by (simp, subst ReadProtocol.simps, subst rb) (simp add: sep_defs)
qed

lemma ReadProtocol_loop_done:
  "n \<le> i \<Longrightarrow> ReadProtocol_loop i n ar r = Inr ((Some (RArray ar), None), r)"
  by (subst ReadProtocol_loop.simps) simp

lemma ReadProtocol_loop_bulks:
  "read_values k r = Some (map RBulk brs, r1) \<Longrightarrow> i + int k \<le> n \<Longrightarrow>
     ReadProtocol_loop i n ar r
       = ReadProtocol_loop (i + int k) n (ar\<lparr>ArrayArgs := ArrayArgs ar @ brs\<rparr>) r1"
proof (induction k arbitrary: r brs i ar)
  case 0
  then show ?case by simp
next
  case (Suc k)
  from Suc.prems(1) obtain v r0 vs where
    rp: "ReadProtocol r = Inr ((Some v, None), r0)" and
    rv: "read_values k r0 = Some (vs, r1)" and
    vs: "v # vs = map RBulk brs"
    by (auto split: sum.splits prod.splits option.splits)
  from vs obtain br brs' where brs: "brs = br # brs'" "v = RBulk br" "vs = map RBulk brs'"
    by (cases brs) auto
  from Suc.prems(2) have lt: "i < n" and le: "(i + 1) + int k \<le> n"
    by simp_all
  have "ReadProtocol_loop i n ar r
          = ReadProtocol_loop (i + 1) n (ar\<lparr>ArrayArgs := ArrayArgs ar @ [br]\<rparr>) r0"
    using lt rp brs(2) by (subst ReadProtocol_loop.simps) simp
  also have "\<dots> = ReadProtocol_loop ((i + 1) + int k) n
       ((ar\<lparr>ArrayArgs := ArrayArgs ar @ [br]\<rparr>)\<lparr>ArrayArgs :=
           ArrayArgs (ar\<lparr>ArrayArgs := ArrayArgs ar @ [br]\<rparr>) @ brs'\<rparr>) r1"
    using rv brs(3) le by (intro Suc.IH) simp_all
  finally show ?case
    using brs(1) by (simp add: add.assoc)
qed

lemma read_values_length:
  "read_values k r = Some (vs, r1) \<Longrightarrow> length vs = k"
  by (induction k arbitrary: r vs)
    (auto split: sum.splits prod.splits option.splits)

lemma ReadProtocol_loop_mismatch:
  "i < n \<Longrightarrow> ReadProtocol r = Inr ((Some v, None), r1) \<Longrightarrow> \<forall>br. v \<noteq> RBulk br \<Longrightarrow>
     ReadProtocol_loop i n ar r
       = Inr ((None, Some (ErrorString ''In  ReadResp ArrSep, must read BulkResp'')), r1)"
  by (subst ReadProtocol_loop.simps) (auto split: Resp.splits)

text \<open>
  C7. An array header declares the count \<open>n\<close> and the decoder is then called on
  what follows, once per child and in order.
  \<^item> When a call returns a value that is not a bulk string, the calls before it
    having returned bulk strings, the array is not returned: the result is the
    error \<^verbatim>\<open>In  ReadResp ArrSep, must read BulkResp\<close> and no value.
  \<^item> When \<open>n\<close> calls return bulk strings, the result is the array of these, in
    the order read, and the stream is the one left by the last call.
  \<^item> The count zero gives the array without children; nothing after the header
    is consumed.
\<close>

theorem array_children_decoded_in_order:
  assumes "LF \<notin> set d" and "ParseLen d = Inr n"
  shows "(\<forall>k brs r1 v r2.
            int k < n \<and> read_values k r = Some (map RBulk brs, r1)
            \<and> ReadProtocol r1 = Inr ((Some v, None), r2) \<and> (\<forall>br. v \<noteq> RBulk br)
          \<longrightarrow> ReadProtocol ([ArrSep] @ d @ CRLF @ r)
                = Inr ((None, Some (ErrorString ''In  ReadResp ArrSep, must read BulkResp'')), r2))
       \<and> (\<forall>brs r1.
            0 \<le> n \<and> read_values (nat n) r = Some (map RBulk brs, r1)
          \<longrightarrow> length brs = nat n
              \<and> ReadProtocol ([ArrSep] @ d @ CRLF @ r)
                = Inr ((Some (RArray \<lparr>Rtype = ArrayType, Args = [], ArrayArgs = brs\<rparr>), None), r1))
       \<and> (n = 0 \<longrightarrow> ReadProtocol ([ArrSep] @ d @ CRLF @ r)
                = Inr ((Some (RArray \<lparr>Rtype = ArrayType, Args = [], ArrayArgs = []\<rparr>), None), r))"
proof (intro conjI allI impI)
  fix k brs r1 v r2
  assume h: "int k < n \<and> read_values k r = Some (map RBulk brs, r1)
            \<and> ReadProtocol r1 = Inr ((Some v, None), r2) \<and> (\<forall>br. v \<noteq> RBulk br)"
  then have "ReadProtocol_loop 0 n \<lparr>Rtype = ArrayType, Args = [], ArrayArgs = []\<rparr> r
      = ReadProtocol_loop (0 + int k) n
          (\<lparr>Rtype = ArrayType, Args = [], ArrayArgs = []\<rparr>\<lparr>ArrayArgs :=
             ArrayArgs \<lparr>Rtype = ArrayType, Args = [], ArrayArgs = []\<rparr> @ brs\<rparr>) r1"
    by (intro ReadProtocol_loop_bulks) simp_all
  also have "\<dots> = Inr ((None, Some (ErrorString ''In  ReadResp ArrSep, must read BulkResp'')), r2)"
    using h ReadProtocol_loop_mismatch[of "0 + int k" n r1 v r2] by simp
  finally show "ReadProtocol ([ArrSep] @ d @ CRLF @ r)
      = Inr ((None, Some (ErrorString ''In  ReadResp ArrSep, must read BulkResp'')), r2)"
    by (simp only: ReadProtocol_array_header[OF assms])
next
  fix brs r1
  assume h: "0 \<le> n \<and> read_values (nat n) r = Some (map RBulk brs, r1)"
  then have "length (map RBulk brs) = nat n"
    by (intro read_values_length) blast
  then show "length brs = nat n"
    by simp
next
  fix brs r1
  assume h: "0 \<le> n \<and> read_values (nat n) r = Some (map RBulk brs, r1)"
  then have "ReadProtocol_loop 0 n \<lparr>Rtype = ArrayType, Args = [], ArrayArgs = []\<rparr> r
      = ReadProtocol_loop (0 + int (nat n)) n
          (\<lparr>Rtype = ArrayType, Args = [], ArrayArgs = []\<rparr>\<lparr>ArrayArgs :=
             ArrayArgs \<lparr>Rtype = ArrayType, Args = [], ArrayArgs = []\<rparr> @ brs\<rparr>) r1"
    by (intro ReadProtocol_loop_bulks) simp_all
  also have "\<dots> = Inr ((Some (RArray \<lparr>Rtype = ArrayType, Args = [], ArrayArgs = brs\<rparr>), None), r1)"
    using h by (subst ReadProtocol_loop_done) simp_all
  finally show "ReadProtocol ([ArrSep] @ d @ CRLF @ r)
      = Inr ((Some (RArray \<lparr>Rtype = ArrayType, Args = [], ArrayArgs = brs\<rparr>), None), r1)"
    by (simp only: ReadProtocol_array_header[OF assms])
next
  assume "n = 0"
  then show "ReadProtocol ([ArrSep] @ d @ CRLF @ r)
      = Inr ((Some (RArray \<lparr>Rtype = ArrayType, Args = [], ArrayArgs = []\<rparr>), None), r)"
    by (simp only: ReadProtocol_array_header[OF assms] ReadProtocol_loop_done)
qed

theorem array_children_decoded_in_order_witness:
  "ReadProtocol (''*2'' @ CRLF @ ''$3'' @ CRLF @ ''foo'' @ CRLF @ ''*0'' @ CRLF)
     = Inr ((None, Some (ErrorString ''In  ReadResp ArrSep, must read BulkResp'')), [])
   \<and> ReadProtocol (''*2'' @ CRLF @ ''$3'' @ CRLF @ ''foo'' @ CRLF @ ''$3'' @ CRLF @ ''bar'' @ CRLF)
     = Inr ((Some (RArray \<lparr>Rtype = ArrayType, Args = [], ArrayArgs =
               [\<lparr>Rtype = BulkType, Args = [''foo''], Empty = False\<rparr>,
                \<lparr>Rtype = BulkType, Args = [''bar''], Empty = False\<rparr>]\<rparr>), None), [])
   \<and> ReadProtocol (''*0'' @ CRLF @ ''+OK'' @ CRLF)
     = Inr ((Some (RArray \<lparr>Rtype = ArrayType, Args = [], ArrayArgs = []\<rparr>), None),
            ''+OK'' @ CRLF)"
proof -
  have d2: "LF \<notin> set ''2''" and d0: "LF \<notin> set ''0''"
    by (simp_all add: LF_def)
  have p2: "ParseLen ''2'' = Inr 2" and p0: "ParseLen ''0'' = Inr 0"
    by (simp_all add: ParseLen_def is_digit_def digit_val_def)
  have rv1: "read_values 1 (''$3'' @ CRLF @ ''foo'' @ CRLF @ ''*0'' @ CRLF)
      = Some (map RBulk [\<lparr>Rtype = BulkType, Args = [''foo''], Empty = False\<rparr>], ''*0'' @ CRLF)"
    by code_simp
  have rp: "ReadProtocol (''*0'' @ CRLF)
      = Inr ((Some (RArray \<lparr>Rtype = ArrayType, Args = [], ArrayArgs = []\<rparr>), None), [])"
    by code_simp
  have rv2: "read_values (nat 2) (''$3'' @ CRLF @ ''foo'' @ CRLF @ ''$3'' @ CRLF @ ''bar'' @ CRLF)
      = Some (map RBulk [\<lparr>Rtype = BulkType, Args = [''foo''], Empty = False\<rparr>,
                         \<lparr>Rtype = BulkType, Args = [''bar''], Empty = False\<rparr>], [])"
    by code_simp
  note a = array_children_decoded_in_order[OF d2 p2,
      of "''$3'' @ CRLF @ ''foo'' @ CRLF @ ''*0'' @ CRLF"]
  note b = array_children_decoded_in_order[OF d2 p2,
      of "''$3'' @ CRLF @ ''foo'' @ CRLF @ ''$3'' @ CRLF @ ''bar'' @ CRLF"]
  note c = array_children_decoded_in_order[OF d0 p0, of "''+OK'' @ CRLF"]
  have 1: "ReadProtocol (''*2'' @ CRLF @ ''$3'' @ CRLF @ ''foo'' @ CRLF @ ''*0'' @ CRLF)
     = Inr ((None, Some (ErrorString ''In  ReadResp ArrSep, must read BulkResp'')), [])"
    using a[THEN conjunct1, rule_format, of 1 _ "''*0'' @ CRLF", OF conjI[OF _ conjI[OF rv1 conjI[OF rp]]]]
    by (simp add: ArrSep_def)
  have 2: "ReadProtocol (''*2'' @ CRLF @ ''$3'' @ CRLF @ ''foo'' @ CRLF @ ''$3'' @ CRLF @ ''bar'' @ CRLF)
     = Inr ((Some (RArray \<lparr>Rtype = ArrayType, Args = [], ArrayArgs =
               [\<lparr>Rtype = BulkType, Args = [''foo''], Empty = False\<rparr>,
                \<lparr>Rtype = BulkType, Args = [''bar''], Empty = False\<rparr>]\<rparr>), None), [])"
    using b[THEN conjunct2, THEN conjunct1, rule_format, OF conjI[OF _ rv2]]
    by (simp add: ArrSep_def)
  have 3: "ReadProtocol (''*0'' @ CRLF @ ''+OK'' @ CRLF)
     = Inr ((Some (RArray \<lparr>Rtype = ArrayType, Args = [], ArrayArgs = []\<rparr>), None),
            ''+OK'' @ CRLF)"
    using c[THEN conjunct2, THEN conjunct2] by (simp add: ArrSep_def)
  from 1 2 3 show ?thesis by blast
qed


subsection \<open>Round trips\<close>

text \<open>Decoding the frame of each kind.\<close>

lemma ReadProtocol_line:
  assumes "LF \<notin> set a"
  shows "ReadProtocol ([SimpSep] @ a @ CRLF @ r)
           = Inr ((Some (RSimple \<lparr>Rtype = SimpleType, Args = [a]\<rparr>), None), r)"
    and "ReadProtocol ([ErrSep] @ a @ CRLF @ r)
           = Inr ((Some (RError \<lparr>Rtype = ErrorType, Args = [a]\<rparr>), None), r)"
    and "ReadProtocol ([IntSep] @ a @ CRLF @ r)
           = Inr ((Some (RInt \<lparr>Rtype = IntType, Args = [a]\<rparr>), None), r)"
proof -
  have rb: "ReadBytes (c # a @ CRLF @ r) LF = ((c # a @ CRLF, None), r)"
    if "c = SimpSep \<or> c = ErrSep \<or> c = IntSep" for c
    using assms that by (intro ReadBytes_header) (auto simp: sep_defs)
  show "ReadProtocol ([SimpSep] @ a @ CRLF @ r)
           = Inr ((Some (RSimple \<lparr>Rtype = SimpleType, Args = [a]\<rparr>), None), r)"
    using subslice_header[of SimpSep a]
    by (simp, subst ReadProtocol.simps, subst rb) (simp_all add: sep_defs)
  show "ReadProtocol ([ErrSep] @ a @ CRLF @ r)
           = Inr ((Some (RError \<lparr>Rtype = ErrorType, Args = [a]\<rparr>), None), r)"
    using subslice_header[of ErrSep a]
    by (simp, subst ReadProtocol.simps, subst rb) (simp_all add: sep_defs)
  show "ReadProtocol ([IntSep] @ a @ CRLF @ r)
           = Inr ((Some (RInt \<lparr>Rtype = IntType, Args = [a]\<rparr>), None), r)"
    using subslice_header[of IntSep a]
    by (simp, subst ReadProtocol.simps, subst rb) (simp_all add: sep_defs)
qed

lemma ReadProtocol_null_bulk:
  "ReadProtocol (''$-1'' @ CRLF @ r)
     = Inr ((Some (RBulk \<lparr>Rtype = BulkType, Args = [], Empty = True\<rparr>), None), r)"
proof -
  have rb: "ReadBytes (''$-1'' @ CRLF @ r) LF = ((''$-1'' @ CRLF, None), r)"
    using ReadBytes_line[of LF "''$-1'' @ [CR]" r] by (simp add: sep_defs)
  show ?thesis
    by (subst ReadProtocol.simps, subst rb) (simp add: sep_defs subslice_def ParseLen_def)
qed

lemma ReadProtocol_data_bulk:
  "ReadProtocol ([BulkSep] @ Itob (length a) @ CRLF @ a @ CRLF @ r)
     = Inr ((Some (RBulk \<lparr>Rtype = BulkType, Args = [a], Empty = False\<rparr>), None), r)"
proof -
  have rb: "ReadBytes (BulkSep # Itob (length a) @ CRLF @ a @ CRLF @ r) LF
      = ((BulkSep # Itob (length a) @ CRLF, None), a @ CRLF @ r)"
    by (intro ReadBytes_header) (simp_all add: LF_notin_Itob, simp add: sep_defs)
  have rf: "ReadFull (a @ CRLF @ r) (nat (int (length a) + 2))
      = ((a @ CRLF, length a + 2, None), r)"
    by (simp add: ReadFull_def CRLF_def nat_add_distrib)
  have sl: "subslice (a @ CRLF) 0 (int (length (a @ CRLF)) - 2) = Inr a"
    by (simp add: subslice_def CRLF_def)
  show ?thesis
    using subslice_header[of BulkSep "Itob (length a)"] sl rf
    by (simp, subst ReadProtocol.simps, subst rb)
      (simp add: sep_defs ParseLen_Itob)
qed

lemma BulkResp_roundtrip:
  assumes "valid_Bulk br"
  shows "\<exists>bs. BulkResp_Encode br = Inr bs
           \<and> (\<forall>r. ReadProtocol (bs @ r) = Inr ((Some (RBulk br), None), r))"
proof (cases "Empty br")
  case True
  with assms have br: "br = \<lparr>Rtype = BulkType, Args = [], Empty = True\<rparr>"
    by (cases br) (simp add: valid_Bulk_def)
  have "BulkResp_Encode br = Inr (''$-1'' @ CRLF)"
    by (simp add: br BulkResp_Encode_def CRLF_def)
  moreover have "\<forall>r. ReadProtocol ((''$-1'' @ CRLF) @ r) = Inr ((Some (RBulk br), None), r)"
    using ReadProtocol_null_bulk by (simp add: br)
  ultimately show ?thesis by blast
next
  case False
  with assms obtain a where br: "br = \<lparr>Rtype = BulkType, Args = [a], Empty = False\<rparr>"
    by (cases br) (auto simp: valid_Bulk_def length_Suc_conv)
  have "BulkResp_Encode br = Inr ([BulkSep] @ Itob (length a) @ CRLF @ a @ CRLF)"
    by (simp add: br BulkResp_Encode_def index0_def)
  moreover have "\<forall>r. ReadProtocol (([BulkSep] @ Itob (length a) @ CRLF @ a @ CRLF) @ r)
      = Inr ((Some (RBulk br), None), r)"
    using ReadProtocol_data_bulk[of a] by (simp add: br)
  ultimately show ?thesis by blast
qed

lemma children_roundtrip:
  "list_all valid_Bulk brs \<Longrightarrow>
     \<exists>bs. (\<forall>b. ArrayResp_Encode_loop brs b = Inr (b @ bs))
        \<and> (\<forall>r. read_values (length brs) (bs @ r) = Some (map RBulk brs, r))"
proof (induction brs)
  case Nil
  then show ?case by simp
next
  case (Cons br brs)
  then obtain bs where
    bs: "\<forall>b. ArrayResp_Encode_loop brs b = Inr (b @ bs)"
        "\<forall>r. read_values (length brs) (bs @ r) = Some (map RBulk brs, r)"
    by auto
  from Cons.prems obtain e where
    e: "BulkResp_Encode br = Inr e"
       "\<forall>r. ReadProtocol (e @ r) = Inr ((Some (RBulk br), None), r)"
    using BulkResp_roundtrip[of br] by auto
  have "\<forall>b. ArrayResp_Encode_loop (br # brs) b = Inr (b @ (e @ bs))"
    using e(1) bs(1) by simp
  moreover have "\<forall>r. read_values (length (br # brs)) ((e @ bs) @ r)
      = Some (map RBulk (br # brs), r)"
    using e(2) bs(2) by simp
  ultimately show ?case by blast
qed

lemma ArrayResp_roundtrip:
  assumes "list_all valid_Bulk brs"
  shows "\<exists>bs. ArrayResp_Encode \<lparr>Rtype = ArrayType, Args = [], ArrayArgs = brs\<rparr> = Inr bs
     \<and> (\<forall>r. ReadProtocol (bs @ r)
           = Inr ((Some (RArray \<lparr>Rtype = ArrayType, Args = [], ArrayArgs = brs\<rparr>), None), r))"
proof -
  from children_roundtrip[OF assms] obtain fs where
    fs: "\<forall>b. ArrayResp_Encode_loop brs b = Inr (b @ fs)"
        "\<forall>r. read_values (length brs) (fs @ r) = Some (map RBulk brs, r)"
    by auto
  have enc: "ArrayResp_Encode \<lparr>Rtype = ArrayType, Args = [], ArrayArgs = brs\<rparr>
      = Inr ([ArrSep] @ Itob (length brs) @ CRLF @ fs)"
    using fs(1) by (simp add: ArrayResp_Encode_def)
  have dec: "ReadProtocol (([ArrSep] @ Itob (length brs) @ CRLF @ fs) @ r)
           = Inr ((Some (RArray \<lparr>Rtype = ArrayType, Args = [], ArrayArgs = brs\<rparr>), None), r)" for r
  proof -
    have "ReadProtocol ([ArrSep] @ Itob (length brs) @ CRLF @ (fs @ r))
        = ReadProtocol_loop 0 (int (length brs)) \<lparr>Rtype = ArrayType, Args = [], ArrayArgs = []\<rparr> (fs @ r)"
      by (rule ReadProtocol_array_header[OF LF_notin_Itob ParseLen_Itob])
    also have "\<dots> = ReadProtocol_loop (0 + int (length brs)) (int (length brs))
        (\<lparr>Rtype = ArrayType, Args = [], ArrayArgs = []\<rparr>\<lparr>ArrayArgs :=
           ArrayArgs \<lparr>Rtype = ArrayType, Args = [], ArrayArgs = []\<rparr> @ brs\<rparr>) r"
      using fs(2) by (intro ReadProtocol_loop_bulks) simp_all
    also have "\<dots> = Inr ((Some (RArray \<lparr>Rtype = ArrayType, Args = [], ArrayArgs = brs\<rparr>), None), r)"
      by (subst ReadProtocol_loop_done) simp_all
    finally show ?thesis by simp
  qed
  from enc dec show ?thesis by blast
qed

lemma Resp_roundtrip:
  assumes "valid v"
  shows "\<exists>bs. Encode v = Inr bs \<and> (\<forall>r. ReadProtocol (bs @ r) = Inr ((Some v, None), r))"
proof (cases v)
  case (RSimple sr)
  with assms obtain a where sr: "sr = \<lparr>Rtype = SimpleType, Args = [a]\<rparr>" and a: "LF \<notin> set a"
    by (cases sr) (auto simp: one_line_def split: list.splits)
  have "Encode v = Inr ([SimpSep] @ a @ CRLF)"
    by (simp add: RSimple sr SimpleResp_Encode_def index0_def)
  moreover have "\<forall>r. ReadProtocol (([SimpSep] @ a @ CRLF) @ r) = Inr ((Some v, None), r)"
    using ReadProtocol_line(1)[OF a] by (simp add: RSimple sr)
  ultimately show ?thesis by blast
next
  case (RError er)
  with assms obtain a where er: "er = \<lparr>Rtype = ErrorType, Args = [a]\<rparr>" and a: "LF \<notin> set a"
    by (cases er) (auto simp: one_line_def split: list.splits)
  have "Encode v = Inr ([ErrSep] @ a @ CRLF)"
    by (simp add: RError er ErrorResp_Encode_def index0_def)
  moreover have "\<forall>r. ReadProtocol (([ErrSep] @ a @ CRLF) @ r) = Inr ((Some v, None), r)"
    using ReadProtocol_line(2)[OF a] by (simp add: RError er)
  ultimately show ?thesis by blast
next
  case (RInt ir)
  with assms obtain a where ir: "ir = \<lparr>Rtype = IntType, Args = [a]\<rparr>" and a: "LF \<notin> set a"
    by (cases ir) (auto simp: one_line_def split: list.splits)
  have "Encode v = Inr ([IntSep] @ a @ CRLF)"
    by (simp add: RInt ir IntResp_Encode_def index0_def)
  moreover have "\<forall>r. ReadProtocol (([IntSep] @ a @ CRLF) @ r) = Inr ((Some v, None), r)"
    using ReadProtocol_line(3)[OF a] by (simp add: RInt ir)
  ultimately show ?thesis by blast
next
  case (RBulk br)
  with assms BulkResp_roundtrip[of br] show ?thesis by simp
next
  case (RArray ar)
  with assms obtain brs where ar: "ar = \<lparr>Rtype = ArrayType, Args = [], ArrayArgs = brs\<rparr>"
    and brs: "list_all valid_Bulk brs"
    by (cases ar) auto
  from ArrayResp_roundtrip[OF brs] show ?thesis
    by (simp add: RArray ar)
qed

text \<open>
  C4. A value that satisfies the invariants of its kind is encoded without a
  panic, and decoding the bytes produced gives back that value, with no error
  and without touching what follows on the stream.
\<close>

theorem decode_after_encode:
  "valid v \<Longrightarrow> \<exists>bs. Encode v = Inr bs \<and> ReadProtocol (bs @ r) = Inr ((Some v, None), r)"
  using Resp_roundtrip[of v] by blast

theorem decode_after_encode_witness:
  "valid (RArray \<lparr>Rtype = ''array'', Args = [], ArrayArgs =
            [\<lparr>Rtype = ''bulk'', Args = [''a'' @ [CR, LF] @ ''b''], Empty = False\<rparr>,
             \<lparr>Rtype = ''bulk'', Args = [], Empty = True\<rparr>,
             \<lparr>Rtype = ''bulk'', Args = [[]], Empty = False\<rparr>]\<rparr>)
   \<and> (\<exists>bs. Encode (RArray \<lparr>Rtype = ''array'', Args = [], ArrayArgs =
            [\<lparr>Rtype = ''bulk'', Args = [''a'' @ [CR, LF] @ ''b''], Empty = False\<rparr>,
             \<lparr>Rtype = ''bulk'', Args = [], Empty = True\<rparr>,
             \<lparr>Rtype = ''bulk'', Args = [[]], Empty = False\<rparr>]\<rparr>) = Inr bs
        \<and> ReadProtocol (bs @ ''+OK'')
            = Inr ((Some (RArray \<lparr>Rtype = ''array'', Args = [], ArrayArgs =
                [\<lparr>Rtype = ''bulk'', Args = [''a'' @ [CR, LF] @ ''b''], Empty = False\<rparr>,
                 \<lparr>Rtype = ''bulk'', Args = [], Empty = True\<rparr>,
                 \<lparr>Rtype = ''bulk'', Args = [[]], Empty = False\<rparr>]\<rparr>), None), ''+OK''))"
proof -
  have v: "valid (RArray \<lparr>Rtype = ''array'', Args = [], ArrayArgs =
            [\<lparr>Rtype = ''bulk'', Args = [''a'' @ [CR, LF] @ ''b''], Empty = False\<rparr>,
             \<lparr>Rtype = ''bulk'', Args = [], Empty = True\<rparr>,
             \<lparr>Rtype = ''bulk'', Args = [[]], Empty = False\<rparr>]\<rparr>)"
    by (simp add: valid_Bulk_def ArrayType_def BulkType_def)
  from v decode_after_encode[OF v, of "''+OK''"] show ?thesis
    by blast
qed

subsection \<open>Frames and their values\<close>

lemma canonical_field_decimal:
  "canonical_field d n \<Longrightarrow> decimal_field d n"
  by (simp add: canonical_field_def decimal_field_def Itob_nonempty Itob_digits foldl_Itob)

lemma decimal_field_ParseLen:
  assumes "decimal_field d n"
  shows "ParseLen d = Inr (int n)" and "LF \<notin> set d"
proof -
  from assms have dg: "list_all is_digit d" and ne: "d \<noteq> []"
    by (simp_all add: decimal_field_def)
  from dg have "d \<noteq> ''-1''"
    using is_digit_not_special[of "CHR ''-''"] by auto
  with assms ne dg show "ParseLen d = Inr (int n)"
    by (simp add: ParseLen_def decimal_field_def)
  from dg show "LF \<notin> set d"
    using is_digit_not_special by (auto simp: list_all_iff)
qed

lemma canonical_frame_wf:
  "canonical_frame bs \<Longrightarrow> wf_frame bs"
proof -
  have b: "bulk_frame decimal_field f" if "bulk_frame canonical_field f" for f
    using that
  proof (induction rule: bulk_frame.induct)
    case null_bulk
    show ?case by (rule bulk_frame.null_bulk)
  next
    case (data_bulk d c)
    then show ?case by (intro bulk_frame.data_bulk canonical_field_decimal)
  qed
  have bs: "bulk_frames decimal_field n fs" if "bulk_frames canonical_field n fs" for n fs
    using that
  proof (induction rule: bulk_frames.induct)
    case no_frame
    show ?case by (rule bulk_frames.no_frame)
  next
    case (next_frame f n fs)
    then show ?case by (intro bulk_frames.next_frame b)
  qed
  assume "canonical_frame bs"
  then have "wire_frame canonical_field bs"
    by (simp add: canonical_frame_def)
  then have "wire_frame decimal_field bs"
  proof (induction rule: wire_frame.induct)
    case (simple_frame p)
    then show ?case by (rule wire_frame.simple_frame)
  next
    case (error_frame p)
    then show ?case by (rule wire_frame.error_frame)
  next
    case (int_frame p)
    then show ?case by (rule wire_frame.int_frame)
  next
    case (bulk_string_frame f)
    then show ?case by (intro wire_frame.bulk_string_frame b)
  next
    case (array_frame d n fs)
    then show ?case by (intro wire_frame.array_frame canonical_field_decimal bs)
  qed
  then show ?thesis
    by (simp add: wf_frame_def)
qed

text \<open>A frame in the encoder's form is the encoding of a value.\<close>

lemma bulk_frame_value:
  "bulk_frame canonical_field f \<Longrightarrow> \<exists>br. valid_Bulk br \<and> BulkResp_Encode br = Inr f"
proof (induction rule: bulk_frame.induct)
  case null_bulk
  have "valid_Bulk \<lparr>Rtype = BulkType, Args = [], Empty = True\<rparr>"
    by (simp add: valid_Bulk_def)
  moreover have "BulkResp_Encode \<lparr>Rtype = BulkType, Args = [], Empty = True\<rparr> = Inr (''$-1'' @ CRLF)"
    by (simp add: BulkResp_Encode_def CRLF_def)
  ultimately show ?case by blast
next
  case (data_bulk d c)
  then have d: "d = Itob (length c)"
    by (simp add: canonical_field_def)
  have "valid_Bulk \<lparr>Rtype = BulkType, Args = [c], Empty = False\<rparr>"
    by (simp add: valid_Bulk_def)
  moreover have "BulkResp_Encode \<lparr>Rtype = BulkType, Args = [c], Empty = False\<rparr>
      = Inr ([BulkSep] @ d @ CRLF @ c @ CRLF)"
    by (simp add: d BulkResp_Encode_def index0_def)
  ultimately show ?case by blast
qed

lemma bulk_frames_values:
  "bulk_frames canonical_field n fs \<Longrightarrow>
     \<exists>brs. length brs = n \<and> list_all valid_Bulk brs
          \<and> (\<forall>b. ArrayResp_Encode_loop brs b = Inr (b @ fs))"
proof (induction rule: bulk_frames.induct)
  case no_frame
  have "length ([] :: BulkResp list) = 0 \<and> list_all valid_Bulk []
      \<and> (\<forall>b. ArrayResp_Encode_loop [] b = Inr (b @ []))"
    by simp
  then show ?case by blast
next
  case (next_frame f n fs)
  from next_frame.IH obtain brs where
    brs: "length brs = n" "list_all valid_Bulk brs"
         "\<forall>b. ArrayResp_Encode_loop brs b = Inr (b @ fs)"
    by blast
  from bulk_frame_value[OF next_frame.hyps(1)] obtain br where
    br: "valid_Bulk br" "BulkResp_Encode br = Inr f"
    by blast
  have "length (br # brs) = Suc n \<and> list_all valid_Bulk (br # brs)
      \<and> (\<forall>b. ArrayResp_Encode_loop (br # brs) b = Inr (b @ f @ fs))"
    using brs br by simp
  then show ?case by blast
qed

lemma canonical_frame_value:
  "canonical_frame bs \<Longrightarrow> \<exists>v. valid v \<and> Encode v = Inr bs"
proof -
  assume "canonical_frame bs"
  then have "wire_frame canonical_field bs"
    by (simp add: canonical_frame_def)
  then show ?thesis
  proof (induction rule: wire_frame.induct)
    case (simple_frame p)
    then have "valid (RSimple \<lparr>Rtype = SimpleType, Args = [p]\<rparr>)
        \<and> Encode (RSimple \<lparr>Rtype = SimpleType, Args = [p]\<rparr>) = Inr ([SimpSep] @ p @ CRLF)"
      by (simp add: one_line_def SimpleResp_Encode_def index0_def)
    then show ?case by blast
  next
    case (error_frame p)
    then have "valid (RError \<lparr>Rtype = ErrorType, Args = [p]\<rparr>)
        \<and> Encode (RError \<lparr>Rtype = ErrorType, Args = [p]\<rparr>) = Inr ([ErrSep] @ p @ CRLF)"
      by (simp add: one_line_def ErrorResp_Encode_def index0_def)
    then show ?case by blast
  next
    case (int_frame p)
    then have "valid (RInt \<lparr>Rtype = IntType, Args = [p]\<rparr>)
        \<and> Encode (RInt \<lparr>Rtype = IntType, Args = [p]\<rparr>) = Inr ([IntSep] @ p @ CRLF)"
      by (simp add: one_line_def IntResp_Encode_def index0_def)
    then show ?case by blast
  next
    case (bulk_string_frame f)
    from bulk_frame_value[OF this] obtain br where "valid_Bulk br" "BulkResp_Encode br = Inr f"
      by blast
    then have "valid (RBulk br) \<and> Encode (RBulk br) = Inr f"
      by simp
    then show ?case by blast
  next
    case (array_frame d n fs)
    from bulk_frames_values[OF array_frame(2)] obtain brs where
      brs: "length brs = n" "list_all valid_Bulk brs"
           "\<forall>b. ArrayResp_Encode_loop brs b = Inr (b @ fs)"
      by blast
    from array_frame(1) have d: "d = Itob n"
      by (simp add: canonical_field_def)
    from brs have "valid (RArray \<lparr>Rtype = ArrayType, Args = [], ArrayArgs = brs\<rparr>)
        \<and> Encode (RArray \<lparr>Rtype = ArrayType, Args = [], ArrayArgs = brs\<rparr>)
            = Inr ([ArrSep] @ d @ CRLF @ fs)"
      by (simp add: d ArrayResp_Encode_def)
    then show ?case by blast
  qed
qed

text \<open>Every well-formed frame is decoded to a value, whatever the form of its
  decimals.\<close>

lemma ReadProtocol_decimal_bulk:
  assumes "decimal_field d (length a)"
  shows "ReadProtocol ([BulkSep] @ d @ CRLF @ a @ CRLF @ r)
     = Inr ((Some (RBulk \<lparr>Rtype = BulkType, Args = [a], Empty = False\<rparr>), None), r)"
proof -
  note pl = decimal_field_ParseLen[OF assms]
  have rb: "ReadBytes (BulkSep # d @ CRLF @ a @ CRLF @ r) LF
      = ((BulkSep # d @ CRLF, None), a @ CRLF @ r)"
    using pl(2) by (intro ReadBytes_header) (simp_all add: sep_defs)
  have rf: "ReadFull (a @ CRLF @ r) (nat (int (length a) + 2))
      = ((a @ CRLF, length a + 2, None), r)"
    by (simp add: ReadFull_def CRLF_def nat_add_distrib)
  have sl: "subslice (a @ CRLF) 0 (int (length (a @ CRLF)) - 2) = Inr a"
    by (simp add: subslice_def CRLF_def)
  show ?thesis
    using subslice_header[of BulkSep d] sl rf
    by (simp, subst ReadProtocol.simps, subst rb)
      (simp add: sep_defs pl(1))
qed

lemma bulk_frame_decodes:
  "bulk_frame decimal_field f \<Longrightarrow>
     \<exists>br. valid_Bulk br \<and> (\<forall>r. ReadProtocol (f @ r) = Inr ((Some (RBulk br), None), r))"
proof (induction rule: bulk_frame.induct)
  case null_bulk
  have "valid_Bulk \<lparr>Rtype = BulkType, Args = [], Empty = True\<rparr>"
    by (simp add: valid_Bulk_def)
  moreover have "\<forall>r. ReadProtocol ((''$-1'' @ CRLF) @ r)
      = Inr ((Some (RBulk \<lparr>Rtype = BulkType, Args = [], Empty = True\<rparr>), None), r)"
    using ReadProtocol_null_bulk by simp
  ultimately show ?case by blast
next
  case (data_bulk d c)
  have "valid_Bulk \<lparr>Rtype = BulkType, Args = [c], Empty = False\<rparr>"
    by (simp add: valid_Bulk_def)
  moreover have "\<forall>r. ReadProtocol (([BulkSep] @ d @ CRLF @ c @ CRLF) @ r)
      = Inr ((Some (RBulk \<lparr>Rtype = BulkType, Args = [c], Empty = False\<rparr>), None), r)"
    using ReadProtocol_decimal_bulk[OF data_bulk] by simp
  ultimately show ?case by blast
qed

lemma bulk_frames_decode:
  "bulk_frames decimal_field n fs \<Longrightarrow>
     \<exists>brs. length brs = n \<and> list_all valid_Bulk brs
          \<and> (\<forall>r. read_values n (fs @ r) = Some (map RBulk brs, r))"
proof (induction rule: bulk_frames.induct)
  case no_frame
  have "length ([] :: BulkResp list) = 0 \<and> list_all valid_Bulk []
      \<and> (\<forall>r. read_values 0 ([] @ r) = Some (map RBulk [], r))"
    by simp
  then show ?case by blast
next
  case (next_frame f n fs)
  from next_frame.IH obtain brs where
    brs: "length brs = n" "list_all valid_Bulk brs"
         "\<forall>r. read_values n (fs @ r) = Some (map RBulk brs, r)"
    by blast
  from bulk_frame_decodes[OF next_frame.hyps(1)] obtain br where
    br: "valid_Bulk br" "\<forall>r. ReadProtocol (f @ r) = Inr ((Some (RBulk br), None), r)"
    by blast
  have "length (br # brs) = Suc n \<and> list_all valid_Bulk (br # brs)
      \<and> (\<forall>r. read_values (Suc n) ((f @ fs) @ r) = Some (map RBulk (br # brs), r))"
    using brs br by simp
  then show ?case by blast
qed

lemma wf_frame_decodes:
  "wf_frame bs \<Longrightarrow> \<exists>v. valid v \<and> (\<forall>r. ReadProtocol (bs @ r) = Inr ((Some v, None), r))"
proof -
  assume "wf_frame bs"
  then have "wire_frame decimal_field bs"
    by (simp add: wf_frame_def)
  then show ?thesis
  proof (induction rule: wire_frame.induct)
    case (simple_frame p)
    then have "valid (RSimple \<lparr>Rtype = SimpleType, Args = [p]\<rparr>)
        \<and> (\<forall>r. ReadProtocol (([SimpSep] @ p @ CRLF) @ r)
              = Inr ((Some (RSimple \<lparr>Rtype = SimpleType, Args = [p]\<rparr>), None), r))"
      using ReadProtocol_line(1)[of p] by (simp add: one_line_def)
    then show ?case by blast
  next
    case (error_frame p)
    then have "valid (RError \<lparr>Rtype = ErrorType, Args = [p]\<rparr>)
        \<and> (\<forall>r. ReadProtocol (([ErrSep] @ p @ CRLF) @ r)
              = Inr ((Some (RError \<lparr>Rtype = ErrorType, Args = [p]\<rparr>), None), r))"
      using ReadProtocol_line(2)[of p] by (simp add: one_line_def)
    then show ?case by blast
  next
    case (int_frame p)
    then have "valid (RInt \<lparr>Rtype = IntType, Args = [p]\<rparr>)
        \<and> (\<forall>r. ReadProtocol (([IntSep] @ p @ CRLF) @ r)
              = Inr ((Some (RInt \<lparr>Rtype = IntType, Args = [p]\<rparr>), None), r))"
      using ReadProtocol_line(3)[of p] by (simp add: one_line_def)
    then show ?case by blast
  next
    case (bulk_string_frame f)
    from bulk_frame_decodes[OF this] obtain br where
      "valid_Bulk br" "\<forall>r. ReadProtocol (f @ r) = Inr ((Some (RBulk br), None), r)"
      by blast
    then have "valid (RBulk br) \<and> (\<forall>r. ReadProtocol (f @ r) = Inr ((Some (RBulk br), None), r))"
      by simp
    then show ?case by blast
  next
    case (array_frame d n fs)
    from bulk_frames_decode[OF array_frame(2)] obtain brs where
      brs: "length brs = n" "list_all valid_Bulk brs"
           "\<forall>r. read_values n (fs @ r) = Some (map RBulk brs, r)"
      by blast
    note pl = decimal_field_ParseLen[OF array_frame(1)]
    have dec: "ReadProtocol (([ArrSep] @ d @ CRLF @ fs) @ r)
        = Inr ((Some (RArray \<lparr>Rtype = ArrayType, Args = [], ArrayArgs = brs\<rparr>), None), r)" for r
    proof -
      have "ReadProtocol ([ArrSep] @ d @ CRLF @ (fs @ r))
          = ReadProtocol_loop 0 (int n) \<lparr>Rtype = ArrayType, Args = [], ArrayArgs = []\<rparr> (fs @ r)"
        by (rule ReadProtocol_array_header[OF pl(2) pl(1)])
      also have "\<dots> = ReadProtocol_loop (0 + int n) (int n)
          (\<lparr>Rtype = ArrayType, Args = [], ArrayArgs = []\<rparr>\<lparr>ArrayArgs :=
             ArrayArgs \<lparr>Rtype = ArrayType, Args = [], ArrayArgs = []\<rparr> @ brs\<rparr>) r"
        using brs(3) by (intro ReadProtocol_loop_bulks) simp_all
      also have "\<dots> = Inr ((Some (RArray \<lparr>Rtype = ArrayType, Args = [], ArrayArgs = brs\<rparr>), None), r)"
        by (subst ReadProtocol_loop_done) simp_all
      finally show ?thesis by simp
    qed
    from brs(2) have "valid (RArray \<lparr>Rtype = ArrayType, Args = [], ArrayArgs = brs\<rparr>)"
      by simp
    with dec show ?case by blast
  qed
qed

text \<open>
  C3. A well-formed frame of any of the five kinds whose lengths and counts are
  written as the encoder writes them (in decimal without leading zeros) is
  decoded to a value, with no error and without touching what follows on the
  stream, and that value is encoded to the very bytes of the frame.
\<close>

theorem encode_after_decode:
  "canonical_frame bs \<Longrightarrow>
     \<exists>v. ReadProtocol (bs @ r) = Inr ((Some v, None), r) \<and> Encode v = Inr bs"
proof -
  assume "canonical_frame bs"
  then obtain v where v: "valid v" "Encode v = Inr bs"
    using canonical_frame_value by blast
  from Resp_roundtrip[OF v(1)] v(2)
  have "ReadProtocol (bs @ r) = Inr ((Some v, None), r)"
    by auto
  with v(2) show ?thesis by blast
qed

theorem encode_after_decode_witness:
  "canonical_frame (''*2'' @ [CR, LF] @ ''$3'' @ [CR, LF] @ ''foo'' @ [CR, LF]
             @ ''$4'' @ [CR, LF] @ (''a'' @ [CR, LF] @ ''b'') @ [CR, LF])
   \<and> (\<exists>v. ReadProtocol ((''*2'' @ [CR, LF] @ ''$3'' @ [CR, LF] @ ''foo'' @ [CR, LF]
             @ ''$4'' @ [CR, LF] @ (''a'' @ [CR, LF] @ ''b'') @ [CR, LF]) @ ''$-1'')
            = Inr ((Some v, None), ''$-1'')
        \<and> Encode v = Inr (''*2'' @ [CR, LF] @ ''$3'' @ [CR, LF] @ ''foo'' @ [CR, LF]
             @ ''$4'' @ [CR, LF] @ (''a'' @ [CR, LF] @ ''b'') @ [CR, LF]))"
proof -
  have i: "Itob (Suc (Suc 0)) = ''2''" "Itob (Suc (Suc (Suc 0))) = ''3''"
    "Itob (Suc (Suc (Suc (Suc 0)))) = ''4''"
    by code_simp+
  have b1: "bulk_frame canonical_field ([BulkSep] @ ''3'' @ CRLF @ ''foo'' @ CRLF)"
    by (rule data_bulk) (simp add: canonical_field_def i)
  have b2: "bulk_frame canonical_field ([BulkSep] @ ''4'' @ CRLF
                @ (''a'' @ [CR, LF] @ ''b'') @ CRLF)"
    by (rule data_bulk) (simp add: canonical_field_def i)
  have fs: "bulk_frames canonical_field (Suc (Suc 0))
      (([BulkSep] @ ''3'' @ CRLF @ ''foo'' @ CRLF)
       @ ([BulkSep] @ ''4'' @ CRLF @ (''a'' @ [CR, LF] @ ''b'') @ CRLF) @ [])"
    by (intro next_frame no_frame b1 b2)
  have "canonical_field ''2'' (Suc (Suc 0))"
    by (simp add: canonical_field_def i)
  from array_frame[OF this fs]
  have w: "canonical_frame (''*2'' @ [CR, LF] @ ''$3'' @ [CR, LF] @ ''foo'' @ [CR, LF]
             @ ''$4'' @ [CR, LF] @ (''a'' @ [CR, LF] @ ''b'') @ [CR, LF])"
    by (simp add: canonical_frame_def BulkSep_def ArrSep_def CRLF_def)
  from w encode_after_decode[OF w, of "''$-1''"] show ?thesis
    by blast
qed

text \<open>
  The frame \<^verbatim>\<open>$03\r\nfoo\r\n\<close> is well-formed: its length is an ASCII decimal and
  three bytes of content and the terminator follow. It is decoded, with no
  error, to the bulk string \<^verbatim>\<open>foo\<close>, which is encoded to \<^verbatim>\<open>$3\r\nfoo\r\n\<close>: these are
  not the bytes of the frame.
\<close>

theorem leading_zero_length_not_reproduced:
  "wf_frame (''$03'' @ [CR, LF] @ ''foo'' @ [CR, LF])
   \<and> ReadProtocol (''$03'' @ [CR, LF] @ ''foo'' @ [CR, LF])
       = Inr ((Some (RBulk \<lparr>Rtype = ''bulk'', Args = [''foo''], Empty = False\<rparr>), None), [])
   \<and> Encode (RBulk \<lparr>Rtype = ''bulk'', Args = [''foo''], Empty = False\<rparr>)
       = Inr (''$3'' @ [CR, LF] @ ''foo'' @ [CR, LF])
   \<and> Encode (RBulk \<lparr>Rtype = ''bulk'', Args = [''foo''], Empty = False\<rparr>)
       \<noteq> Inr (''$03'' @ [CR, LF] @ ''foo'' @ [CR, LF])"
proof -
  have "decimal_field ''03'' (length ''foo'')"
    by (simp add: decimal_field_def is_digit_def digit_val_def)
  then have "bulk_frame decimal_field ([BulkSep] @ ''03'' @ CRLF @ ''foo'' @ CRLF)"
    by (rule data_bulk)
  then have "wire_frame decimal_field ([BulkSep] @ ''03'' @ CRLF @ ''foo'' @ CRLF)"
    by (rule bulk_string_frame)
  then have w: "wf_frame (''$03'' @ [CR, LF] @ ''foo'' @ [CR, LF])"
    by (simp add: wf_frame_def BulkSep_def CRLF_def)
  have d: "ReadProtocol (''$03'' @ [CR, LF] @ ''foo'' @ [CR, LF])
       = Inr ((Some (RBulk \<lparr>Rtype = ''bulk'', Args = [''foo''], Empty = False\<rparr>), None), [])"
    by code_simp
  have e: "Encode (RBulk \<lparr>Rtype = ''bulk'', Args = [''foo''], Empty = False\<rparr>)
       = Inr (''$3'' @ [CR, LF] @ ''foo'' @ [CR, LF])"
    by code_simp
  have n: "Encode (RBulk \<lparr>Rtype = ''bulk'', Args = [''foo''], Empty = False\<rparr>)
       \<noteq> Inr (''$03'' @ [CR, LF] @ ''foo'' @ [CR, LF])"
    unfolding e by simp
  from w d e n show ?thesis by blast
qed

end
